theory Spec2Isabelle
  imports Complex_Main "HOL-Library.Multiset"
begin

section \<open>Data model\<close>

text \<open>
  The sources are \<^verbatim>\<open>server/update_transactions.js\<close> (fetch loop, one sync cycle,
  top-level driver) and the two versions of \<^verbatim>\<open>db/queries/transactions.js\<close>
  (duplicate-aware reconciliation and the \<^verbatim>\<open>ON CONFLICT\<close> upsert).

  A JavaScript value that may be \<^verbatim>\<open>null\<close> or \<^verbatim>\<open>undefined\<close> is an \<open>option\<close>;
  amounts are exact decimals (\<open>rat\<close>), as the \<^verbatim>\<open>numeric\<close> comparison of the
  \<^verbatim>\<open>SELECT\<close> sees them; a table is the list of its rows, in the order in which
  a \<^verbatim>\<open>SELECT\<close> without \<^verbatim>\<open>ORDER BY\<close> returns them. An \<^verbatim>\<open>UPDATE\<close> is modelled
  as leaving the row at its place, which the store does not promise: the statements
  about an updated table below are about its rows, not about their order.
\<close>

text \<open>A row of \<^verbatim>\<open>items\<close>: the fields the sync reads and writes.\<close>

record item =
  plaid_item_id :: string
  plaid_access_token :: string
  transactions_cursor :: "string option"

text \<open>A row of the accounts table and an account as the provider lists it.\<close>

record account =
  a_id :: nat
  a_plaid_account_id :: string
  a_plaid_item_id :: string

record plaid_account =
  pa_account_id :: string

text \<open>
  A transaction as the provider sends it; the fields are the ones that
  \<^verbatim>\<open>createOrUpdateTransactions\<close> destructures. \<open>personal_finance_category\<close> holds
  the \<^verbatim>\<open>primary\<close> category, \<open>None\<close> when the provider sends no category object.
\<close>

record transaction =
  account_id :: string
  transaction_id :: string
  personal_finance_category :: "string option"
  transaction_type :: string
  name :: string
  amount :: rat
  iso_currency_code :: "string option"
  unofficial_currency_code :: "string option"
  date :: string
  pending :: bool
  account_owner :: "string option"

text \<open>A row of \<^verbatim>\<open>transactions_table\<close>; \<open>r_id\<close> is the serial primary key.\<close>

record txn_row =
  r_id :: nat
  r_account_id :: nat
  r_plaid_transaction_id :: string
  r_category :: string
  r_type :: string
  r_name :: string
  r_amount :: rat
  r_iso_currency_code :: "string option"
  r_unofficial_currency_code :: "string option"
  r_date :: string
  r_pending :: bool
  r_account_owner :: "string option"
  r_potential_duplicate :: bool

text \<open>One page of the provider's change feed, and the request that asks for it.\<close>

record page =
  added :: "transaction list"
  modified :: "transaction list"
  removed :: "string list"
  has_more :: bool
  next_cursor :: string

datatype sync_result = Failed | Page page

record sync_request =
  access_token :: string
  cursor :: "string option"

text \<open>What the code writes to the console, in order.\<close>

datatype log_event =
    ScriptStarted
  | NoItemsFound
  | SyncingItem string
  | RetrievedItem "item option"
  | ErrorFetching
  | ProcessedTransactions "string list"
  | PotentialDuplicateDetected string string
  | UpdatedPending string
  | FlaggedPotentialDuplicate string
  | InsertedNew string
  | Upserted string string
  | ErrorProcessing string
  | RetrievedItems nat
  | ItemLine string
  | ErrorDuringSync

text \<open>What a call can throw.\<close>

datatype error =
    ItemNotFound string
  | AccountsGetFailed
  | UnresolvedAccount string
  | MissingCategory
  | DeleteFailed string

text \<open>
  The world the script runs in: the three tables with their serial counters, the
  console, and the provider. The provider answers \<^verbatim>\<open>transactionsSync\<close> with the
  responses of \<open>sync_responses\<close> in arrival order and the requests it got are kept in
  \<open>sync_requests\<close>; a request that finds no response left never returns.
  \<open>accounts_response\<close> is the answer of \<^verbatim>\<open>accountsGet\<close> for an access token
  (\<open>None\<close>: the call throws), \<open>write_fails\<close> says for which records the store
  rejects the write statement that carries them (\<^verbatim>\<open>db.query\<close> throws), and
  \<open>delete_fails\<close> for which identifiers it fails the \<^verbatim>\<open>DELETE\<close>.
\<close>

record world =
  items_table :: "item list"
  accounts_table :: "account list"
  next_account_id :: nat
  transactions_table :: "txn_row list"
  next_transaction_id :: nat
  console :: "log_event list"
  sync_responses :: "sync_result list"
  sync_requests :: "sync_request list"
  accounts_response :: "string \<Rightarrow> plaid_account list option"
  write_fails :: "transaction \<Rightarrow> bool"
  delete_fails :: "string \<Rightarrow> bool"

definition console_log :: "log_event \<Rightarrow> world \<Rightarrow> world" where
  "console_log e w = w\<lparr>console := console w @ [e]\<rparr>"

section \<open>The store's helpers\<close>

text \<open>
  Modelled from the spec: \<^verbatim>\<open>retrieveItemByPlaidItemId\<close> is not among the sources; it
  is the Cursor Store's \<^verbatim>\<open>getEntity(id) -> {accessToken, cursor}\<close>, the first row of
  \<^verbatim>\<open>items\<close> with that provider identifier, if any.
\<close>

definition retrieveItemByPlaidItemId :: "world \<Rightarrow> string \<Rightarrow> item option" where
  "retrieveItemByPlaidItemId w plaidItemId =
     find (\<lambda>i. plaid_item_id i = plaidItemId) (items_table w)"

text \<open>
  Modelled from the spec: \<^verbatim>\<open>updateItemTransactionsCursor\<close> is not among the sources;
  it is the Cursor Store's \<^verbatim>\<open>setCursor(id, cursor) -> void\<close>.
\<close>

definition updateItemTransactionsCursor :: "string \<Rightarrow> string option \<Rightarrow> world \<Rightarrow> world" where
  "updateItemTransactionsCursor plaidItemId c w =
     w\<lparr>items_table :=
         map (\<lambda>i. if plaid_item_id i = plaidItemId then i\<lparr>transactions_cursor := c\<rparr> else i)
           (items_table w)\<rparr>"

text \<open>
  Modelled from the spec: \<^verbatim>\<open>retrieveItemById\<close> is not among the sources; the driver
  calls it without an argument and iterates over what it returns, once per known
  tracked entity: all rows of \<^verbatim>\<open>items\<close>.
\<close>

definition retrieveItemById :: "world \<Rightarrow> item list" where
  "retrieveItemById w = items_table w"

text \<open>
  Modelled from the spec: \<^verbatim>\<open>retrieveAccountByPlaidAccountId\<close> is not among the
  sources; it is the Account Store's
  \<^verbatim>\<open>resolveLocalAccountId(providerAccountId) -> localAccountId | NotFound\<close>.
\<close>

definition retrieveAccountByPlaidAccountId :: "world \<Rightarrow> string \<Rightarrow> account option" where
  "retrieveAccountByPlaidAccountId w plaidAccountId =
     find (\<lambda>a. a_plaid_account_id a = plaidAccountId) (accounts_table w)"

text \<open>
  Modelled from the spec: \<^verbatim>\<open>createAccounts\<close> is not among the sources; it is the
  Account Store's \<^verbatim>\<open>upsertAccounts(entityId, accounts[]) -> void\<close>: an account the
  table does not know gets a row with a fresh local identifier, a known one keeps its
  row.
\<close>

fun createAccounts :: "string \<Rightarrow> plaid_account list \<Rightarrow> world \<Rightarrow> world" where
  "createAccounts plaidItemId [] w = w"
| "createAccounts plaidItemId (a # as) w =
     createAccounts plaidItemId as
       (if list_ex (\<lambda>r. a_plaid_account_id r = pa_account_id a) (accounts_table w) then w
        else w\<lparr>accounts_table := accounts_table w @
                  [\<lparr>a_id = next_account_id w, a_plaid_account_id = pa_account_id a,
                    a_plaid_item_id = plaidItemId\<rparr>],
                next_account_id := Suc (next_account_id w)\<rparr>)"

section \<open>fetchTransactionUpdates\<close>

text \<open>
  The value of \<^verbatim>\<open>cursor || null\<close>: \<^verbatim>\<open>null\<close> for \<^verbatim>\<open>null\<close>, \<^verbatim>\<open>undefined\<close> and
  the empty string (the falsy values a cursor can take), the cursor itself otherwise.
\<close>

definition cursor_or_null :: "string option \<Rightarrow> string option" where
  "cursor_or_null c = (case c of None \<Rightarrow> None | Some s \<Rightarrow> if s = [] then None else Some s)"

text \<open>The local variables of the loop.\<close>

record changes =
  c_added :: "transaction list"
  c_modified :: "transaction list"
  c_removed :: "string list"
  c_cursor :: "string option"

datatype loop_exit = Completed | Caught

text \<open>
  The \<^verbatim>\<open>while (hasMore)\<close> loop inside the \<^verbatim>\<open>try\<close>. \<open>hasMore\<close> starts as true, so
  the body runs at least once. The arguments are the access token, the provider's
  pending responses, the requests made so far and the loop variables; the result says
  whether the loop ended by itself or in the \<^verbatim>\<open>catch\<close>, and is \<open>None\<close> when a
  request never returns.
\<close>

fun page_loop ::
  "string \<Rightarrow> sync_result list \<Rightarrow> sync_request list \<Rightarrow> changes \<Rightarrow>
   (loop_exit \<times> changes \<times> sync_result list \<times> sync_request list) option" where
  "page_loop accessToken [] reqs c = None"
| "page_loop accessToken (Failed # rs) reqs c =
     Some (Caught, c, rs,
           reqs @ [\<lparr>access_token = accessToken, cursor = cursor_or_null (c_cursor c)\<rparr>])"
| "page_loop accessToken (Page data # rs) reqs c =
     (let reqs' = reqs @ [\<lparr>access_token = accessToken, cursor = cursor_or_null (c_cursor c)\<rparr>];
          c' = \<lparr>c_added = c_added c @ added data,
                c_modified = c_modified c @ modified data,
                c_removed = c_removed c @ removed data,
                c_cursor = Some (next_cursor data)\<rparr>
      in if has_more data then page_loop accessToken rs reqs' c'
         else Some (Completed, c', rs, reqs'))"

text \<open>What \<^verbatim>\<open>fetchTransactionUpdates\<close> returns.\<close>

record updates =
  u_added :: "transaction list"
  u_modified :: "transaction list"
  u_removed :: "string list"
  u_cursor :: "string option"
  u_accessToken :: string

definition fetchTransactionUpdates ::
  "string \<Rightarrow> world \<Rightarrow> ((error + updates) \<times> world) option" where
  "fetchTransactionUpdates plaidItemId w =
     (let found = retrieveItemByPlaidItemId w plaidItemId;
          w1 = console_log (RetrievedItem found) w
      in case found of
        None \<Rightarrow> Some (Inl (ItemNotFound plaidItemId), w1)
      | Some it \<Rightarrow>
          let accessToken = plaid_access_token it;
              lastCursor = transactions_cursor it
          in (case page_loop accessToken (sync_responses w1) (sync_requests w1)
                     \<lparr>c_added = [], c_modified = [], c_removed = [], c_cursor = lastCursor\<rparr> of
                None \<Rightarrow> None
              | Some (ex, c, rs, reqs) \<Rightarrow>
                  let w2 = w1\<lparr>sync_responses := rs, sync_requests := reqs\<rparr>;
                      w3 = (if ex = Caught then console_log ErrorFetching w2 else w2)
                  in Some (Inr \<lparr>u_added = c_added c, u_modified = c_modified c,
                                u_removed = c_removed c,
                                u_cursor = (if ex = Caught then lastCursor else c_cursor c),
                                u_accessToken = accessToken\<rparr>, w3)))"

section \<open>createOrUpdateTransactions and deleteTransactions\<close>

text \<open>The row that both \<^verbatim>\<open>INSERT\<close> statements build from the record.\<close>

definition new_row :: "nat \<Rightarrow> nat \<Rightarrow> string \<Rightarrow> transaction \<Rightarrow> bool \<Rightarrow> txn_row" where
  "new_row i accountId category t dup =
     \<lparr>r_id = i, r_account_id = accountId, r_plaid_transaction_id = transaction_id t,
      r_category = category, r_type = transaction_type t, r_name = name t,
      r_amount = amount t, r_iso_currency_code = iso_currency_code t,
      r_unofficial_currency_code = unofficial_currency_code t, r_date = date t,
      r_pending = pending t, r_account_owner = account_owner t,
      r_potential_duplicate = dup\<rparr>"

definition insert_transaction :: "nat \<Rightarrow> string \<Rightarrow> transaction \<Rightarrow> bool \<Rightarrow> world \<Rightarrow> world" where
  "insert_transaction accountId category t dup w =
     w\<lparr>transactions_table :=
         transactions_table w @ [new_row (next_transaction_id w) accountId category t dup],
       next_transaction_id := Suc (next_transaction_id w)\<rparr>"

text \<open>The \<^verbatim>\<open>SET\<close> list of the \<^verbatim>\<open>UPDATE\<close> that turns a pending row into the posted one.\<close>

definition posted_row :: "string \<Rightarrow> transaction \<Rightarrow> txn_row \<Rightarrow> txn_row" where
  "posted_row category t r =
     r\<lparr>r_plaid_transaction_id := transaction_id t, r_category := category,
       r_type := transaction_type t, r_name := name t, r_amount := amount t,
       r_iso_currency_code := iso_currency_code t,
       r_unofficial_currency_code := unofficial_currency_code t,
       r_pending := False, r_account_owner := account_owner t,
       r_potential_duplicate := False\<rparr>"

definition update_pending :: "nat \<Rightarrow> string \<Rightarrow> transaction \<Rightarrow> world \<Rightarrow> world" where
  "update_pending i category t w =
     w\<lparr>transactions_table :=
         map (\<lambda>r. if r_id r = i then posted_row category t r else r) (transactions_table w)\<rparr>"

text \<open>The \<^verbatim>\<open>SELECT\<close> for similar transactions: same account, amount within 1.00, same date.\<close>

definition existingTransactions :: "nat \<Rightarrow> transaction \<Rightarrow> world \<Rightarrow> txn_row list" where
  "existingTransactions accountId t w =
     filter (\<lambda>r. r_account_id r = accountId \<and> \<bar>r_amount r - amount t\<bar> \<le> 1 \<and> r_date r = date t)
       (transactions_table w)"

text \<open>
  The callback of the duplicate-aware version, run for one record from its start to
  its end with nothing in between. The destructuring of the record and the account
  lookup stand before the \<^verbatim>\<open>try\<close>: what they throw rejects the callback. A write
  that the store rejects is caught and logged.
\<close>

definition reconcile_transaction :: "transaction \<Rightarrow> world \<Rightarrow> (error + unit) \<times> world" where
  "reconcile_transaction t w =
     (case personal_finance_category t of
        None \<Rightarrow> (Inl MissingCategory, w)
      | Some category \<Rightarrow>
          (case retrieveAccountByPlaidAccountId w (account_id t) of
             None \<Rightarrow> (Inl (UnresolvedAccount (account_id t)), w)
           | Some acc \<Rightarrow>
               (case existingTransactions (a_id acc) t w of
                  [] \<Rightarrow>
                    if write_fails w t then (Inr (), console_log (ErrorProcessing (name t)) w)
                    else (Inr (), console_log (InsertedNew (name t))
                                    (insert_transaction (a_id acc) category t False w))
                | existingTransaction # _ \<Rightarrow>
                    let w1 = console_log (PotentialDuplicateDetected (name t) (date t)) w
                    in if r_pending existingTransaction \<and> \<not> pending t then
                         if write_fails w t
                         then (Inr (), console_log (ErrorProcessing (name t)) w1)
                         else (Inr (), console_log (UpdatedPending (name t))
                                 (update_pending (r_id existingTransaction) category t w1))
                       else
                         if write_fails w t
                         then (Inr (), console_log (ErrorProcessing (name t)) w1)
                         else (Inr (), console_log (FlaggedPotentialDuplicate (name t))
                                 (insert_transaction (a_id acc) category t True w1)))))"

text \<open>
  The upsert version: \<^verbatim>\<open>INSERT ... ON CONFLICT (plaid_transaction_id) DO UPDATE\<close>
  overwrites every column but the primary key of the row that has the identifier, and
  inserts a row when there is none.
\<close>

definition upsert_row :: "nat \<Rightarrow> string \<Rightarrow> transaction \<Rightarrow> world \<Rightarrow> world" where
  "upsert_row accountId category t w =
     (if list_ex (\<lambda>r. r_plaid_transaction_id r = transaction_id t) (transactions_table w)
      then w\<lparr>transactions_table :=
               map (\<lambda>r. if r_plaid_transaction_id r = transaction_id t
                        then new_row (r_id r) accountId category t False else r)
                 (transactions_table w)\<rparr>
      else insert_transaction accountId category t False w)"

definition upsert_transaction :: "transaction \<Rightarrow> world \<Rightarrow> (error + unit) \<times> world" where
  "upsert_transaction t w =
     (case personal_finance_category t of
        None \<Rightarrow> (Inl MissingCategory, w)
      | Some category \<Rightarrow>
          (case retrieveAccountByPlaidAccountId w (account_id t) of
             None \<Rightarrow> (Inl (UnresolvedAccount (account_id t)), w)
           | Some acc \<Rightarrow>
               if write_fails w t then (Inr (), console_log (ErrorProcessing (name t)) w)
               else (Inr (), console_log (Upserted (name t) (transaction_id t))
                               (upsert_row (a_id acc) category t w))))"

subsection \<open>A batch: all callbacks at once\<close>

text \<open>
  \<^verbatim>\<open>transactions.map(async transaction => ...)\<close> starts every callback before any of
  them gets an answer, and \<^verbatim>\<open>await Promise.all\<close> throws at the first rejection in time
  while the other callbacks go on. With a store that answers its queries in the order
  in which they were issued, a batch runs in rounds, each round in batch order:
  \<^enum> the destructuring of every record, which rejects a record without category at
    once, and the issue of the account lookups;
  \<^enum> the answers to the lookups, which reject the records without a known account;
  \<^enum> in the duplicate-aware version, the answers to the \<^verbatim>\<open>SELECT\<close>s, all of them taken
    on the table as it is before any write of the batch, with the log line for a
    potential duplicate;
  \<^enum> the writes and their log lines.

  When a callback rejects, nothing of rounds 3 and 4 has happened yet: the call throws
  on the world as it is, and the callbacks that got through rounds 1 and 2 are still
  running. A throw therefore carries them along; what they do is done when the event
  loop gets to it, after the caller has handled the throw.
\<close>

text \<open>What a callback holds after rounds 1 and 2.\<close>

record started =
  st_accountId :: nat
  st_category :: string
  st_transaction :: transaction

definition started_callbacks :: "world \<Rightarrow> transaction list \<Rightarrow> started list" where
  "started_callbacks w transactions =
     List.map_filter
       (\<lambda>t. case personal_finance_category t of
               None \<Rightarrow> None
             | Some category \<Rightarrow>
                 (case retrieveAccountByPlaidAccountId w (account_id t) of
                    None \<Rightarrow> None
                  | Some acc \<Rightarrow>
                      Some \<lparr>st_accountId = a_id acc, st_category = category,
                            st_transaction = t\<rparr>))
       transactions"

text \<open>
  The first rejection in time: a missing category (round 1) comes before any unknown
  account (round 2).
\<close>

definition first_rejection :: "world \<Rightarrow> transaction list \<Rightarrow> error option" where
  "first_rejection w transactions =
     (if list_ex (\<lambda>t. personal_finance_category t = None) transactions
      then Some MissingCategory
      else (case find (\<lambda>t. retrieveAccountByPlaidAccountId w (account_id t) = None)
                   transactions of
              None \<Rightarrow> None
            | Some t \<Rightarrow> Some (UnresolvedAccount (account_id t))))"

text \<open>Round 3: what a callback decides from the rows of its \<^verbatim>\<open>SELECT\<close>.\<close>

datatype decision = Promote nat | FlagDuplicate | InsertNew

definition decide :: "started \<Rightarrow> world \<Rightarrow> decision" where
  "decide s w =
     (case existingTransactions (st_accountId s) (st_transaction s) w of
        [] \<Rightarrow> InsertNew
      | existingTransaction # _ \<Rightarrow>
          if r_pending existingTransaction \<and> \<not> pending (st_transaction s)
          then Promote (r_id existingTransaction) else FlagDuplicate)"

fun select_all :: "started list \<Rightarrow> world \<Rightarrow> decision list \<times> world" where
  "select_all [] w = ([], w)"
| "select_all (s # ss) w =
     (let d = decide s w;
          w1 = (if d = InsertNew then w
                else console_log (PotentialDuplicateDetected (name (st_transaction s))
                                    (date (st_transaction s))) w)
      in case select_all ss w1 of (ds, w2) \<Rightarrow> (d # ds, w2))"

text \<open>Round 4: the write that was decided on, inside the \<^verbatim>\<open>try\<close>.\<close>

definition write_one :: "started \<Rightarrow> decision \<Rightarrow> world \<Rightarrow> world" where
  "write_one s d w =
     (let t = st_transaction s
      in if write_fails w t then console_log (ErrorProcessing (name t)) w
         else (case d of
                 Promote i \<Rightarrow>
                   console_log (UpdatedPending (name t)) (update_pending i (st_category s) t w)
               | FlagDuplicate \<Rightarrow>
                   console_log (FlaggedPotentialDuplicate (name t))
                     (insert_transaction (st_accountId s) (st_category s) t True w)
               | InsertNew \<Rightarrow>
                   console_log (InsertedNew (name t))
                     (insert_transaction (st_accountId s) (st_category s) t False w)))"

fun write_all :: "(started \<times> decision) list \<Rightarrow> world \<Rightarrow> world" where
  "write_all [] w = w"
| "write_all ((s, d) # sds) w = write_all sds (write_one s d w)"

definition run_reconcile :: "started list \<Rightarrow> world \<Rightarrow> world" where
  "run_reconcile ss w = (case select_all ss w of (ds, w1) \<Rightarrow> write_all (zip ss ds) w1)"

text \<open>The upsert version has no round 3.\<close>

definition upsert_one :: "started \<Rightarrow> world \<Rightarrow> world" where
  "upsert_one s w =
     (let t = st_transaction s
      in if write_fails w t then console_log (ErrorProcessing (name t)) w
         else console_log (Upserted (name t) (transaction_id t))
                (upsert_row (st_accountId s) (st_category s) t w))"

fun run_upsert :: "started list \<Rightarrow> world \<Rightarrow> world" where
  "run_upsert [] w = w"
| "run_upsert (s # ss) w = run_upsert ss (upsert_one s w)"

text \<open>The callbacks that a throw leaves running, and what they do when their turn comes.\<close>

datatype running = Reconciling "started list" | Upserting "started list"

type_synonym thrown = "error \<times> running list"

fun run_pending :: "running list \<Rightarrow> world \<Rightarrow> world" where
  "run_pending [] w = w"
| "run_pending (Reconciling ss # rs) w = run_pending rs (run_reconcile ss w)"
| "run_pending (Upserting ss # rs) w = run_pending rs (run_upsert ss w)"

text \<open>The world once everything that a call has started has come to its end.\<close>

definition settled :: "(thrown + 'a) \<times> world \<Rightarrow> world" where
  "settled r = (case fst r of Inl (e, rs) \<Rightarrow> run_pending rs (snd r) | Inr x \<Rightarrow> snd r)"

definition createOrUpdateTransactions :: "transaction list \<Rightarrow> world \<Rightarrow> (thrown + unit) \<times> world" where
  "createOrUpdateTransactions transactions w =
     (case first_rejection w transactions of
        None \<Rightarrow> (Inr (), run_reconcile (started_callbacks w transactions) w)
      | Some e \<Rightarrow> (Inl (e, [Reconciling (started_callbacks w transactions)]), w))"

definition createOrUpdateTransactions_upsert ::
  "transaction list \<Rightarrow> world \<Rightarrow> (thrown + unit) \<times> world" where
  "createOrUpdateTransactions_upsert transactions w =
     (case first_rejection w transactions of
        None \<Rightarrow> (Inr (), run_upsert (started_callbacks w transactions) w)
      | Some e \<Rightarrow> (Inl (e, [Upserting (started_callbacks w transactions)]), w))"

text \<open>
  \<^verbatim>\<open>deleteTransactions\<close>: one \<^verbatim>\<open>DELETE FROM transactions_table WHERE
  plaid_transaction_id = $1\<close> per identifier, all issued at once and none inside a
  \<^verbatim>\<open>try\<close>. The store carries out those it does not fail, in the order issued; the call
  throws when one of them fails. The callbacks do nothing after their \<^verbatim>\<open>DELETE\<close>, so
  a throw leaves nothing running.
\<close>

fun delete_all :: "string list \<Rightarrow> world \<Rightarrow> world" where
  "delete_all [] w = w"
| "delete_all (transactionId # ids) w =
     delete_all ids
       (if delete_fails w transactionId then w
        else w\<lparr>transactions_table :=
                 filter (\<lambda>r. r_plaid_transaction_id r \<noteq> transactionId)
                   (transactions_table w)\<rparr>)"

definition deleteTransactions :: "string list \<Rightarrow> world \<Rightarrow> (thrown + unit) \<times> world" where
  "deleteTransactions plaidTransactionIds w =
     (case find (delete_fails w) plaidTransactionIds of
        None \<Rightarrow> (Inr (), delete_all plaidTransactionIds w)
      | Some transactionId \<Rightarrow>
          (Inl (DeleteFailed transactionId, []), delete_all plaidTransactionIds w))"

section \<open>updateTransactions and the driver\<close>

text \<open>
  \<^verbatim>\<open>update_transactions.js\<close> takes \<^verbatim>\<open>createOrUpdateTransactions\<close> from
  \<^verbatim>\<open>./db/queries\<close>; the sources hold two versions of it, chosen here by a mode.
\<close>

datatype mode = DuplicateAware | UpsertFallback

fun reconcile :: "mode \<Rightarrow> transaction list \<Rightarrow> world \<Rightarrow> (thrown + unit) \<times> world" where
  "reconcile DuplicateAware = createOrUpdateTransactions"
| "reconcile UpsertFallback = createOrUpdateTransactions_upsert"

record counts =
  addedCount :: nat
  modifiedCount :: nat
  removedCount :: nat

definition updateTransactions ::
  "mode \<Rightarrow> string \<Rightarrow> world \<Rightarrow> ((thrown + counts) \<times> world) option" where
  "updateTransactions m plaidItemId w =
     (case fetchTransactionUpdates plaidItemId w of
        None \<Rightarrow> None
      | Some (Inl e, w1) \<Rightarrow> Some (Inl (e, []), w1)
      | Some (Inr u, w1) \<Rightarrow>
          (case accounts_response w1 (u_accessToken u) of
             None \<Rightarrow> Some (Inl (AccountsGetFailed, []), w1)
           | Some accounts \<Rightarrow>
               (case reconcile m (u_added u @ u_modified u)
                       (createAccounts plaidItemId accounts w1) of
                  (Inl th, w3) \<Rightarrow> Some (Inl th, w3)
                | (Inr _, w3) \<Rightarrow>
                    (case deleteTransactions (u_removed u)
                            (console_log
                               (ProcessedTransactions (map name (u_added u @ u_modified u)))
                               w3) of
                       (Inl th, w4) \<Rightarrow> Some (Inl th, w4)
                     | (Inr _, w4) \<Rightarrow>
                         Some (Inr \<lparr>addedCount = length (u_added u),
                                    modifiedCount = length (u_modified u),
                                    removedCount = length (u_removed u)\<rparr>,
                               updateItemTransactionsCursor plaidItemId (u_cursor u) w4)))))"

text \<open>The \<^verbatim>\<open>for (const item of items)\<close> loop of the script: a throw leaves the loop.\<close>

fun sync_items :: "mode \<Rightarrow> item list \<Rightarrow> world \<Rightarrow> ((thrown + unit) \<times> world) option" where
  "sync_items m [] w = Some (Inr (), w)"
| "sync_items m (it # its) w =
     (case updateTransactions m (plaid_item_id it)
             (console_log (SyncingItem (plaid_item_id it)) w) of
        None \<Rightarrow> None
      | Some (Inl th, w1) \<Rightarrow> Some (Inl th, w1)
      | Some (Inr _, w1) \<Rightarrow> sync_items m its w1)"

text \<open>
  The script's top-level function: one \<^verbatim>\<open>try\<close> around the whole of it, the loop
  and the final listing of \<^verbatim>\<open>items\<close>. The \<^verbatim>\<open>catch\<close> logs the error; the callbacks
  that the throw left running come to their end after that.
\<close>

definition sync_script :: "mode \<Rightarrow> world \<Rightarrow> world option" where
  "sync_script m w0 =
     (let w = console_log ScriptStarted w0; its = retrieveItemById w
      in if its = [] then Some (console_log NoItemsFound w)
         else (case sync_items m its w of
                 None \<Rightarrow> None
               | Some (Inl (e, rs), w1) \<Rightarrow> Some (run_pending rs (console_log ErrorDuringSync w1))
               | Some (Inr _, w1) \<Rightarrow>
                   Some (w1\<lparr>console := console w1 @
                              RetrievedItems (length (items_table w1)) #
                              map (\<lambda>i. ItemLine (plaid_access_token i)) (items_table w1)\<rparr>)))"

section \<open>Example worlds\<close>

text \<open>
  The end-to-end scenario: one item that was never synced, whose first sync gets two
  pages, the records \<open>A\<close>, \<open>B\<close> on the first and \<open>C\<close> on the second.
\<close>

definition item1 :: item where
  "item1 = \<lparr>plaid_item_id = ''item-1'', plaid_access_token = ''token-1'',
            transactions_cursor = None\<rparr>"

definition txn :: "string \<Rightarrow> string \<Rightarrow> rat \<Rightarrow> string \<Rightarrow> bool \<Rightarrow> transaction" where
  "txn i acc amt d p =
     \<lparr>account_id = acc, transaction_id = i, personal_finance_category = Some ''FOOD'',
      transaction_type = ''place'', name = i, amount = amt, iso_currency_code = Some ''USD'',
      unofficial_currency_code = None, date = d, pending = p, account_owner = None\<rparr>"

definition txnA :: transaction where
  "txnA = txn ''A'' ''acc-1'' 10 ''2024-01-05'' False"

definition txnB :: transaction where
  "txnB = txn ''B'' ''acc-1'' 20 ''2024-01-06'' False"

definition txnC :: transaction where
  "txnC = txn ''C'' ''acc-1'' 30 ''2024-01-07'' False"

definition page1 :: page where
  "page1 = \<lparr>added = [txnA, txnB], modified = [], removed = [], has_more = True,
            next_cursor = ''c1''\<rparr>"

definition page2 :: page where
  "page2 = \<lparr>added = [txnC], modified = [], removed = [], has_more = False,
            next_cursor = ''c2''\<rparr>"

definition world0 :: world where
  "world0 =
     \<lparr>items_table = [item1], accounts_table = [], next_account_id = 1,
      transactions_table = [], next_transaction_id = 1, console = [],
      sync_responses = [], sync_requests = [],
      accounts_response = (\<lambda>tok. Some [\<lparr>pa_account_id = ''acc-1''\<rparr>]),
      write_fails = (\<lambda>t. False), delete_fails = (\<lambda>i. False)\<rparr>"

definition two_page_world :: world where
  "two_page_world = world0\<lparr>sync_responses := [Page page1, Page page2]\<rparr>"

text \<open>
  An item whose stored cursor is the empty string, and a first page whose
  \<open>next_cursor\<close> is the empty string.
\<close>

definition empty_cursor_page :: page where
  "empty_cursor_page = \<lparr>added = [txnA], modified = [], removed = [], has_more = True,
                        next_cursor = []\<rparr>"

definition empty_cursor_world :: world where
  "empty_cursor_world =
     world0\<lparr>items_table := [item1\<lparr>transactions_cursor := Some []\<rparr>],
            sync_responses := [Page empty_cursor_page, Page page2]\<rparr>"

text \<open>An item with a stored cursor, and a fetch whose second page request fails.\<close>

definition item_c0 :: item where
  "item_c0 = item1\<lparr>transactions_cursor := Some ''c0''\<rparr>"

definition failing_world :: world where
  "failing_world =
     world0\<lparr>items_table := [item_c0], sync_responses := [Page page1, Failed, Page page2]\<rparr>"

text \<open>A store that rejects the write of record \<open>B\<close>.\<close>

definition rejecting_world :: world where
  "rejecting_world = two_page_world\<lparr>write_fails := (\<lambda>t. transaction_id t = ''B'')\<rparr>"

text \<open>A page that removes a transaction, and a store that fails its \<^verbatim>\<open>DELETE\<close>.\<close>

definition removing_page :: page where
  "removing_page = \<lparr>added = [txnA], modified = [], removed = [''old''], has_more = False,
                    next_cursor = ''c1''\<rparr>"

definition failing_delete_world :: world where
  "failing_delete_world =
     world0\<lparr>sync_responses := [Page removing_page], delete_fails := (\<lambda>i. i = ''old'')\<rparr>"

text \<open>
  Two items; the first one's page request fails and its \<^verbatim>\<open>accountsGet\<close> throws, the
  second one's page is ready.
\<close>

definition item2 :: item where
  "item2 = \<lparr>plaid_item_id = ''item-2'', plaid_access_token = ''token-2'',
            transactions_cursor = None\<rparr>"

definition two_item_world :: world where
  "two_item_world =
     world0\<lparr>items_table := [item1, item2], sync_responses := [Failed, Page page2],
            accounts_response :=
              (\<lambda>tok. if tok = ''token-1'' then None else Some [\<lparr>pa_account_id = ''acc-1''\<rparr>])\<rparr>"

text \<open>Tables with one known account and rows of 2024-01-05 on it.\<close>

definition account1 :: account where
  "account1 = \<lparr>a_id = 1, a_plaid_account_id = ''acc-1'', a_plaid_item_id = ''item-1''\<rparr>"

definition stored_row :: "nat \<Rightarrow> string \<Rightarrow> rat \<Rightarrow> bool \<Rightarrow> txn_row" where
  "stored_row i k amt p =
     \<lparr>r_id = i, r_account_id = 1, r_plaid_transaction_id = k, r_category = ''FOOD'',
      r_type = ''place'', r_name = k, r_amount = amt, r_iso_currency_code = Some ''USD'',
      r_unofficial_currency_code = None, r_date = ''2024-01-05'', r_pending = p,
      r_account_owner = None, r_potential_duplicate = False\<rparr>"

definition known_account_world :: world where
  "known_account_world = world0\<lparr>accounts_table := [account1], next_account_id := 2\<rparr>"


definition posted_world :: world where
  "posted_world =
     known_account_world\<lparr>transactions_table := [stored_row 1 ''Q'' 10 False],
                         next_transaction_id := 2\<rparr>"


text \<open>A record on an account that the store does not know, alone and on a page.\<close>

definition txnX :: transaction where
  "txnX = txn ''X'' ''acc-x'' 5 ''2024-01-04'' False"

definition startedA :: started where
  "startedA = \<lparr>st_accountId = 1, st_category = ''FOOD'', st_transaction = txnA\<rparr>"

definition unresolved_page :: page where
  "unresolved_page = \<lparr>added = [txnX, txnA], modified = [], removed = [''old''],
                      has_more = False, next_cursor = ''c1''\<rparr>"

definition unresolved_world :: world where
  "unresolved_world = world0\<lparr>sync_responses := [Page unresolved_page]\<rparr>"

section \<open>Predicates used by the statements\<close>

text \<open>A response after which the loop makes no further request.\<close>

definition ends_loop :: "sync_result \<Rightarrow> bool" where
  "ends_loop r = (case r of Failed \<Rightarrow> True | Page p \<Rightarrow> \<not> has_more p)"

text \<open>The parts of the world that no write to the table of transactions touches.\<close>

definition untouched :: "world \<Rightarrow> world \<Rightarrow> bool" where
  "untouched w' w \<longleftrightarrow>
     items_table w' = items_table w \<and> accounts_table w' = accounts_table w \<and>
     write_fails w' = write_fails w \<and> delete_fails w' = delete_fails w"

text \<open>
  For the replay of a batch in the upsert version: the row, as a function of its
  primary key, that the statement of a callback writes (\<open>None\<close> when the store
  rejects it), the last such row that the callbacks write under an identifier, and a
  row after the callbacks have run on a table that holds its identifier.
\<close>

definition written_row :: "world \<Rightarrow> started \<Rightarrow> (nat \<Rightarrow> txn_row) option" where
  "written_row w s =
     (if write_fails w (st_transaction s) then None
      else Some (\<lambda>i. new_row i (st_accountId s) (st_category s) (st_transaction s) False))"

fun last_write :: "world \<Rightarrow> started list \<Rightarrow> string \<Rightarrow> (nat \<Rightarrow> txn_row) option" where
  "last_write w [] k = None"
| "last_write w (s # ss) k =
     (case last_write w ss k of
        Some v \<Rightarrow> Some v
      | None \<Rightarrow> if transaction_id (st_transaction s) = k then written_row w s else None)"

definition settled_row :: "world \<Rightarrow> started list \<Rightarrow> txn_row \<Rightarrow> txn_row" where
  "settled_row w ss r =
     (case last_write w ss (r_plaid_transaction_id r) of None \<Rightarrow> r | Some v \<Rightarrow> v (r_id r))"

section \<open>The fetch loop\<close>

text \<open>
  Pages that report more data are consumed one after the other: their lists are
  appended in arrival order and each one's \<open>next_cursor\<close> becomes the current cursor.
\<close>

lemma page_loop_pages:
  "\<forall>p \<in> set ps. has_more p \<Longrightarrow>
   page_loop tok (map Page ps @ rest) reqs c =
   page_loop tok rest
     (reqs @ map (\<lambda>cu. \<lparr>access_token = tok, cursor = cursor_or_null cu\<rparr>)
               (butlast (c_cursor c # map (\<lambda>p. Some (next_cursor p)) ps)))
     \<lparr>c_added = c_added c @ concat (map added ps),
      c_modified = c_modified c @ concat (map modified ps),
      c_removed = c_removed c @ concat (map removed ps),
      c_cursor = last (c_cursor c # map (\<lambda>p. Some (next_cursor p)) ps)\<rparr>"
proof (induction ps arbitrary: reqs c)
  case Nil
  then show ?case by (cases c) simp
next
  case (Cons p ps)
  then show ?case by (simp add: Let_def)
qed

lemma page_loop_requests:
  assumes "\<forall>p \<in> set ps. has_more p" and "ends_loop r"
  shows "map_option (snd \<circ> snd \<circ> snd) (page_loop tok (map Page ps @ r # rest) reqs c) =
    Some (reqs @ map (\<lambda>cu. \<lparr>access_token = tok, cursor = cursor_or_null cu\<rparr>)
               (c_cursor c # map (\<lambda>p. Some (next_cursor p)) ps))"
proof -
  let ?cs = "c_cursor c # map (\<lambda>p. Some (next_cursor p)) ps"
  have "butlast ?cs @ [last ?cs] = ?cs"
    by (rule append_butlast_last_id) simp
  then have *: "map f (butlast ?cs) @ [f (last ?cs)] = map f ?cs"
    for f :: "string option \<Rightarrow> sync_request"
    by (metis list.simps(8,9) map_append)
  show ?thesis
    using assms(2) *
    by (cases r)
      (simp_all add: page_loop_pages [OF assms(1)] ends_loop_def Let_def
        del: butlast.simps last.simps)
qed

text \<open>
  C9. When the pages of a fetch arrive one after the other, all but the last one
  reporting more data, the added list that \<open>fetchTransactionUpdates\<close> returns is the
  concatenation of the pages' added lists in arrival order, and so are the modified
  and the removed list; the cursor is the last page's \<open>next_cursor\<close>.
\<close>

theorem fetch_concatenates_pages:
  assumes "retrieveItemByPlaidItemId w plaidItemId = Some it"
    and "sync_responses w = map Page ps @ Page lastp # rest"
    and "\<forall>p \<in> set ps. has_more p" and "\<not> has_more lastp"
  shows "map_option fst (fetchTransactionUpdates plaidItemId w) =
    Some (Inr \<lparr>u_added = concat (map added (ps @ [lastp])),
               u_modified = concat (map modified (ps @ [lastp])),
               u_removed = concat (map removed (ps @ [lastp])),
               u_cursor = Some (next_cursor lastp),
               u_accessToken = plaid_access_token it\<rparr>)"
  using assms
  by (simp add: fetchTransactionUpdates_def console_log_def page_loop_pages Let_def)

theorem fetch_concatenates_pages_witness:
  "map_option fst (fetchTransactionUpdates ''item-1'' two_page_world) =
    Some (Inr \<lparr>u_added = [txnA, txnB, txnC], u_modified = [], u_removed = [],
               u_cursor = Some ''c2'', u_accessToken = ''token-1''\<rparr>)"
  using fetch_concatenates_pages [of two_page_world "''item-1''" item1 "[page1]" page2 "[]"]
  by (simp add: two_page_world_def world0_def retrieveItemByPlaidItemId_def item1_def
      page1_def page2_def)

text \<open>
  C8, as the code has it. Every request carries the value of \<^verbatim>\<open>cursor || null\<close>: the
  first one the stored cursor, or no cursor when none is stored or the stored one is
  the empty string; each later one the previous page's \<open>next_cursor\<close>, or no cursor
  when that is the empty string.
\<close>

theorem fetch_request_cursors:
  assumes "retrieveItemByPlaidItemId w plaidItemId = Some it"
    and "sync_responses w = map Page ps @ r # rest"
    and "\<forall>p \<in> set ps. has_more p" and "ends_loop r"
  shows "map_option (sync_requests \<circ> snd) (fetchTransactionUpdates plaidItemId w) =
    Some (sync_requests w @
      \<lparr>access_token = plaid_access_token it,
        cursor = (case transactions_cursor it of None \<Rightarrow> None
                  | Some s \<Rightarrow> if s = [] then None else Some s)\<rparr> #
      map (\<lambda>p. \<lparr>access_token = plaid_access_token it,
                 cursor = (if next_cursor p = [] then None else Some (next_cursor p))\<rparr>) ps)"
proof -
  let ?tok = "plaid_access_token it"
  let ?c0 = "\<lparr>c_added = [], c_modified = [], c_removed = [],
              c_cursor = transactions_cursor it\<rparr>"
  let ?run = "page_loop ?tok (map Page ps @ r # rest) (sync_requests w) ?c0"
  note reqs = page_loop_requests [OF assms(3,4), of ?tok rest "sync_requests w" ?c0]
  obtain ex c rs reqs where pl: "?run = Some (ex, c, rs, reqs)"
    using reqs by (cases ?run) auto
  with reqs have "reqs = sync_requests w @
      map (\<lambda>cu. \<lparr>access_token = ?tok, cursor = cursor_or_null cu\<rparr>)
        (transactions_cursor it # map (\<lambda>p. Some (next_cursor p)) ps)"
    by simp
  with pl assms(1,2) show ?thesis
    by (simp add: fetchTransactionUpdates_def console_log_def Let_def cursor_or_null_def
        comp_def)
qed

theorem fetch_request_cursors_witness:
  "map_option (sync_requests \<circ> snd) (fetchTransactionUpdates ''item-1'' two_page_world) =
    Some [\<lparr>access_token = ''token-1'', cursor = None\<rparr>,
          \<lparr>access_token = ''token-1'', cursor = Some ''c1''\<rparr>]"
  using fetch_request_cursors [of two_page_world "''item-1''" item1 "[page1]" "Page page2" "[]"]
  by (simp add: two_page_world_def world0_def retrieveItemByPlaidItemId_def item1_def
      page1_def page2_def ends_loop_def)

text \<open>
  C8 as stated fails: with the empty string as stored cursor and as the first page's
  \<open>next_cursor\<close>, both requests carry no cursor; the second one does not echo the
  page's \<open>next_cursor\<close>.
\<close>

theorem empty_cursor_counterexample:
  "map_option (map cursor \<circ> sync_requests \<circ> snd)
     (fetchTransactionUpdates ''item-1'' empty_cursor_world) = Some [None, None]
   \<and> map_option (map cursor \<circ> sync_requests \<circ> snd)
       (fetchTransactionUpdates ''item-1'' empty_cursor_world)
     \<noteq> Some [Some [], Some (next_cursor empty_cursor_page)]"
  by (simp add: fetchTransactionUpdates_def empty_cursor_world_def world0_def
      retrieveItemByPlaidItemId_def item1_def empty_cursor_page_def page2_def
      console_log_def cursor_or_null_def Let_def)

section \<open>What the writes leave alone\<close>

lemma untouched_refl [simp]: "untouched w w"
  by (simp add: untouched_def)

lemma untouched_trans: "untouched w'' w' \<Longrightarrow> untouched w' w \<Longrightarrow> untouched w'' w"
  by (simp add: untouched_def)

lemma untouched_console_log [simp]: "untouched (console_log e w) w"
  by (simp add: untouched_def console_log_def)

lemma untouched_write_one: "untouched (write_one s d w) w"
  by (simp add: untouched_def write_one_def console_log_def insert_transaction_def
      update_pending_def Let_def split: decision.split)

lemma untouched_write_all: "untouched (write_all sds w) w"
proof (induction sds arbitrary: w)
  case Nil
  show ?case by simp
next
  case (Cons sd sds)
  obtain s d where sd: "sd = (s, d)" by (cases sd)
  from Cons [of "write_one s d w"] untouched_write_one [of s d w]
  show ?case unfolding sd by (simp add: untouched_trans)
qed

lemma select_all_world:
  "untouched (snd (select_all ss w)) w \<and>
   transactions_table (snd (select_all ss w)) = transactions_table w \<and>
   next_transaction_id (snd (select_all ss w)) = next_transaction_id w"
proof (induction ss arbitrary: w)
  case Nil
  show ?case by simp
next
  case (Cons s ss)
  let ?w1 = "if decide s w = InsertNew then w
     else console_log (PotentialDuplicateDetected (name (st_transaction s))
                                    (date (st_transaction s))) w"
  have 1: "untouched ?w1 w" "transactions_table ?w1 = transactions_table w"
    "next_transaction_id ?w1 = next_transaction_id w"
    by (simp_all add: console_log_def untouched_def)
  have "snd (select_all (s # ss) w) = snd (select_all ss ?w1)"
    by (simp add: Let_def split_def)
  with Cons [of ?w1] 1 show ?case
    by (auto intro: untouched_trans)
qed

lemma untouched_run_reconcile: "untouched (run_reconcile ss w) w"
proof -
  obtain ds w1 where s: "select_all ss w = (ds, w1)" by (cases "select_all ss w")
  with select_all_world [of ss w] have "untouched w1 w" by simp
  with untouched_write_all [of "zip ss ds" w1] s show ?thesis
    by (simp add: run_reconcile_def untouched_trans)
qed

lemma untouched_upsert_one: "untouched (upsert_one s w) w"
  by (simp add: untouched_def upsert_one_def upsert_row_def console_log_def
      insert_transaction_def Let_def)

lemma untouched_run_upsert: "untouched (run_upsert ss w) w"
proof (induction ss arbitrary: w)
  case Nil
  show ?case by simp
next
  case (Cons s ss)
  from Cons [of "upsert_one s w"] untouched_upsert_one [of s w]
  show ?case by (simp add: untouched_trans)
qed

lemma untouched_run_pending: "untouched (run_pending rs w) w"
proof (induction rs arbitrary: w)
  case Nil
  show ?case by simp
next
  case (Cons r rs)
  show ?case
  proof (cases r)
    case (Reconciling ss)
    with Cons [of "run_reconcile ss w"] untouched_run_reconcile [of ss w]
    show ?thesis by (simp add: untouched_trans)
  next
    case (Upserting ss)
    with Cons [of "run_upsert ss w"] untouched_run_upsert [of ss w]
    show ?thesis by (simp add: untouched_trans)
  qed
qed

lemma untouched_reconcile: "untouched (snd (reconcile m ts w)) w"
  by (cases m)
    (simp_all add: createOrUpdateTransactions_def createOrUpdateTransactions_upsert_def
      untouched_run_reconcile untouched_run_upsert split: option.split)

lemma untouched_delete_all: "untouched (delete_all ids w) w"
proof (induction ids arbitrary: w)
  case Nil
  show ?case by simp
next
  case (Cons i ids)
  let ?w1 = "if delete_fails w i then w
        else w\<lparr>transactions_table :=
                 filter (\<lambda>r. r_plaid_transaction_id r \<noteq> i) (transactions_table w)\<rparr>"
  have "untouched ?w1 w" by (simp add: untouched_def)
  with Cons [of ?w1] show ?case by (simp add: untouched_trans)
qed

lemma untouched_deleteTransactions: "untouched (snd (deleteTransactions ids w)) w"
  by (simp add: deleteTransactions_def untouched_delete_all split: option.split)

lemma createAccounts_frame:
  "items_table (createAccounts i as w) = items_table w \<and>
   delete_fails (createAccounts i as w) = delete_fails w \<and>
   write_fails (createAccounts i as w) = write_fails w \<and>
   transactions_table (createAccounts i as w) = transactions_table w"
  by (induction as arbitrary: w) simp_all

lemma fetch_frame:
  "fetchTransactionUpdates i w = Some (r, w') \<Longrightarrow>
   untouched w' w \<and> transactions_table w' = transactions_table w"
  by (auto simp: fetchTransactionUpdates_def Let_def console_log_def untouched_def
      split: option.splits prod.splits if_splits)

section \<open>Evaluating the examples\<close>

lemmas eval_defs =
  updateTransactions_def fetchTransactionUpdates_def retrieveItemByPlaidItemId_def
  console_log_def Let_def cursor_or_null_def createOrUpdateTransactions_def
  createOrUpdateTransactions_upsert_def first_rejection_def started_callbacks_def
  List.map_filter_simps run_reconcile_def decide_def write_one_def upsert_one_def
  upsert_row_def retrieveAccountByPlaidAccountId_def existingTransactions_def
  insert_transaction_def update_pending_def posted_row_def new_row_def
  deleteTransactions_def updateItemTransactionsCursor_def settled_def
  sync_script_def retrieveItemById_def

lemmas example_defs =
  world0_def two_page_world_def item1_def item2_def page1_def page2_def txnA_def txnB_def
  txnC_def txnX_def txn_def rejecting_world_def
  failing_delete_world_def removing_page_def two_item_world_def known_account_world_def
  account1_def stored_row_def unresolved_world_def unresolved_page_def startedA_def

section \<open>The cursor store in a cycle\<close>

lemma find_set_cursor:
  "find (\<lambda>i. plaid_item_id i = k)
     (map (\<lambda>i. if plaid_item_id i = k then i\<lparr>transactions_cursor := c\<rparr> else i) xs) =
   map_option (\<lambda>i. i\<lparr>transactions_cursor := c\<rparr>) (find (\<lambda>i. plaid_item_id i = k) xs)"
  by (induction xs) simp_all

lemma retrieve_after_set_cursor:
  "retrieveItemByPlaidItemId (updateItemTransactionsCursor k c w) k =
   map_option (\<lambda>i. i\<lparr>transactions_cursor := c\<rparr>) (retrieveItemByPlaidItemId w k)"
  by (simp add: retrieveItemByPlaidItemId_def updateItemTransactionsCursor_def find_set_cursor)

lemma retrieve_cong: "items_table w' = items_table w \<Longrightarrow>
  retrieveItemByPlaidItemId w' k = retrieveItemByPlaidItemId w k"
  by (simp add: retrieveItemByPlaidItemId_def)

lemma items_set_cursor:
  "items_table w' = items_table w \<Longrightarrow>
   items_table (updateItemTransactionsCursor k c w') =
   items_table (updateItemTransactionsCursor k c w)"
  by (simp add: updateItemTransactionsCursor_def)

lemma fetch_pages_then_failure:
  assumes "retrieveItemByPlaidItemId w plaidItemId = Some it"
    and "sync_responses w = map Page ps @ Failed # rest"
    and "\<forall>p \<in> set ps. has_more p"
  shows "map_option fst (fetchTransactionUpdates plaidItemId w) =
    Some (Inr \<lparr>u_added = concat (map added ps), u_modified = concat (map modified ps),
               u_removed = concat (map removed ps), u_cursor = transactions_cursor it,
               u_accessToken = plaid_access_token it\<rparr>)"
  using assms
  by (simp add: fetchTransactionUpdates_def console_log_def page_loop_pages Let_def)

lemma reconcile_throws:
  "fst (reconcile m ts w) =
     (case first_rejection w ts of
        None \<Rightarrow> Inr ()
      | Some e \<Rightarrow>
          Inl (e, [case m of DuplicateAware \<Rightarrow> Reconciling (started_callbacks w ts)
                   | UpsertFallback \<Rightarrow> Upserting (started_callbacks w ts)]))"
  by (cases m)
    (simp_all add: createOrUpdateTransactions_def createOrUpdateTransactions_upsert_def
      split: option.split)

lemma delete_throws:
  "fst (deleteTransactions ids w) =
     (case find (delete_fails w) ids of None \<Rightarrow> Inr () | Some i \<Rightarrow> Inl (DeleteFailed i, []))"
  by (simp add: deleteTransactions_def split: option.split)

lemma find_None_list_ex: "find P xs = None \<longleftrightarrow> \<not> list_ex P xs"
  by (auto simp: find_None_iff list_ex_iff)

lemma delete_all_rows:
  "r \<in> set (transactions_table (delete_all ids w)) \<Longrightarrow>
   r \<in> set (transactions_table w) \<and>
   (\<forall>i \<in> set ids. \<not> delete_fails w i \<longrightarrow> r_plaid_transaction_id r \<noteq> i)"
proof (induction ids arbitrary: w)
  case Nil
  then show ?case by simp
next
  case (Cons i ids)
  let ?w1 = "if delete_fails w i then w
        else w\<lparr>transactions_table :=
                 filter (\<lambda>r. r_plaid_transaction_id r \<noteq> i) (transactions_table w)\<rparr>"
  have d: "delete_fails ?w1 = delete_fails w" by simp
  from Cons.prems have "r \<in> set (transactions_table (delete_all ids ?w1))" by simp
  from Cons.IH [OF this] have 1: "r \<in> set (transactions_table ?w1)"
    and 2: "\<forall>j \<in> set ids. \<not> delete_fails w j \<longrightarrow> r_plaid_transaction_id r \<noteq> j"
    unfolding d by blast+
  from 1 have "r \<in> set (transactions_table w)"
    and "\<not> delete_fails w i \<longrightarrow> r_plaid_transaction_id r \<noteq> i"
    by (auto split: if_splits)
  with 2 show ?case by simp
qed

lemma delete_all_done:
  assumes "\<not> list_ex (delete_fails w) ids"
  shows "\<not> list_ex (\<lambda>r. r_plaid_transaction_id r \<in> set ids) (transactions_table (delete_all ids w))"
  using assms delete_all_rows [of _ ids w] unfolding list_ex_iff by blast

lemma createAccounts_grows:
  "k \<in> a_plaid_account_id ` set (accounts_table w) \<Longrightarrow>
   k \<in> a_plaid_account_id ` set (accounts_table (createAccounts i as w))"
  by (induction as arbitrary: w) (auto simp: list_ex_iff)

lemma createAccounts_known:
  "a \<in> set as \<Longrightarrow>
   pa_account_id a \<in> a_plaid_account_id ` set (accounts_table (createAccounts i as w))"
proof (induction as arbitrary: w)
  case Nil
  then show ?case by simp
next
  case (Cons b as)
  let ?w1 = "if list_ex (\<lambda>r. a_plaid_account_id r = pa_account_id b) (accounts_table w) then w
        else w\<lparr>accounts_table := accounts_table w @
                  [\<lparr>a_id = next_account_id w, a_plaid_account_id = pa_account_id b,
                    a_plaid_item_id = i\<rparr>],
                next_account_id := Suc (next_account_id w)\<rparr>"
  show ?case
  proof (cases "a = b")
    case True
    have "pa_account_id b \<in> a_plaid_account_id ` set (accounts_table ?w1)"
      by (auto simp: list_ex_iff intro: rev_image_eqI)
    from createAccounts_grows [OF this, of i as] True show ?thesis by simp
  next
    case False
    with Cons.prems have "a \<in> set as" by simp
    from Cons.IH [OF this, of ?w1] show ?thesis by simp
  qed
qed

lemma cycle_after_accounts:
  assumes fw: "fetchTransactionUpdates k w = Some (Inr u, w1)"
    and acc: "accounts_response w1 (u_accessToken u) = Some accounts"
  shows "updateTransactions m k w =
    (let w2 = createAccounts k accounts w1;
         batch = u_added u @ u_modified u;
         w4 = delete_all (u_removed u)
                (console_log (ProcessedTransactions (map name batch))
                   (snd (reconcile m batch w2)))
     in case fst (reconcile m batch w2) of
          Inl th \<Rightarrow> Some (Inl th, w2)
        | Inr x \<Rightarrow>
            (case find (delete_fails w) (u_removed u) of
               Some i \<Rightarrow> Some (Inl (DeleteFailed i, []), w4)
             | None \<Rightarrow>
                 Some (Inr \<lparr>addedCount = length (u_added u),
                            modifiedCount = length (u_modified u),
                            removedCount = length (u_removed u)\<rparr>,
                       updateItemTransactionsCursor k (u_cursor u) w4)))"
proof -
  let ?w2 = "createAccounts k accounts w1"
  let ?batch = "u_added u @ u_modified u"
  let ?w3 = "snd (reconcile m ?batch ?w2)"
  let ?w3' = "console_log (ProcessedTransactions (map name ?batch)) ?w3"
  have "untouched w1 w" using fetch_frame [OF fw] by simp
  then have "delete_fails w1 = delete_fails w" by (simp add: untouched_def)
  then have d2: "delete_fails ?w2 = delete_fails w" by (simp add: createAccounts_frame)
  have "untouched ?w3 ?w2" by (rule untouched_reconcile)
  then have "delete_fails ?w3' = delete_fails w"
    using d2 by (simp add: untouched_def console_log_def)
  then have del: "deleteTransactions (u_removed u) ?w3' =
      (case find (delete_fails w) (u_removed u) of
         None \<Rightarrow> (Inr (), delete_all (u_removed u) ?w3')
       | Some i \<Rightarrow> (Inl (DeleteFailed i, []), delete_all (u_removed u) ?w3'))"
    by (simp add: deleteTransactions_def split: option.split)
  have thr: "snd (reconcile m ?batch ?w2) = ?w2" if "fst (reconcile m ?batch ?w2) = Inl th" for th
    using that
    by (cases m)
      (simp_all add: createOrUpdateTransactions_def createOrUpdateTransactions_upsert_def
        split: option.splits)
  obtain r w3 where rc: "reconcile m ?batch ?w2 = (r, w3)"
    by (cases "reconcile m ?batch ?w2")
  show ?thesis
  proof (cases r)
    case (Inl th)
    with rc thr [of th] have "w3 = ?w2" by simp
    with Inl rc fw acc show ?thesis
      by (simp add: updateTransactions_def Let_def)
  next
    case (Inr x)
    with rc fw acc del show ?thesis
      by (simp add: updateTransactions_def Let_def split: option.split)
  qed
qed

lemma cycle_items:
  assumes fw: "fetchTransactionUpdates k w = Some (Inr u, w1)"
  shows "\<exists>res w'. updateTransactions m k w = Some (res, w') \<and>
    (case res of
       Inl th \<Rightarrow> items_table w' = items_table w
     | Inr n \<Rightarrow> items_table w' =
         items_table (updateItemTransactionsCursor k (u_cursor u) w))"
proof (cases "accounts_response w1 (u_accessToken u)")
  case None
  with fw fetch_frame [OF fw] show ?thesis
    by (simp add: updateTransactions_def untouched_def)
next
  case (Some accounts)
  let ?w2 = "createAccounts k accounts w1"
  let ?batch = "u_added u @ u_modified u"
  let ?w4 = "delete_all (u_removed u)
                (console_log (ProcessedTransactions (map name ?batch))
                   (snd (reconcile m ?batch ?w2)))"
  have "untouched w1 w" using fetch_frame [OF fw] by simp
  then have i2: "items_table ?w2 = items_table w"
    by (simp add: untouched_def createAccounts_frame)
  have "untouched (snd (reconcile m ?batch ?w2)) ?w2" by (rule untouched_reconcile)
  then have "untouched (console_log (ProcessedTransactions (map name ?batch))
                   (snd (reconcile m ?batch ?w2))) ?w2"
    by (simp add: untouched_def console_log_def)
  from untouched_trans [OF untouched_delete_all this]
  have i4: "items_table ?w4 = items_table w"
    using i2 by (simp add: untouched_def)
  note step = cycle_after_accounts [OF fw Some, of m]
  show ?thesis
  proof (cases "fst (reconcile m ?batch ?w2)")
    case (Inl th)
    with step have "updateTransactions m k w = Some (Inl th, ?w2)"
      by (simp add: Let_def)
    with i2 show ?thesis by simp
  next
    case (Inr x)
    show ?thesis
    proof (cases "find (delete_fails w) (u_removed u)")
      case None
      with Inr step have "updateTransactions m k w =
          Some (Inr \<lparr>addedCount = length (u_added u),
                            modifiedCount = length (u_modified u),
                            removedCount = length (u_removed u)\<rparr>,
                updateItemTransactionsCursor k (u_cursor u) ?w4)"
        by (simp add: Let_def)
      with items_set_cursor [OF i4, of k "u_cursor u"] show ?thesis by simp
    next
      case (Some i)
      with Inr step have "updateTransactions m k w = Some (Inl (DeleteFailed i, []), ?w4)"
        by (simp add: Let_def)
      with i4 show ?thesis by simp
    qed
  qed
qed

text \<open>
  C1. When a page request fails after any number of pages that reported more data,
  \<open>fetchTransactionUpdates\<close> returns the records of the pages received so far together
  with the item's stored cursor, not the \<open>next_cursor\<close> of any of those pages; and
  whichever way the cycle of \<open>updateTransactions\<close> then ends, it ends, and the item that
  the store returns afterwards is the one from before the cycle, cursor included.
\<close>

theorem failed_page_keeps_cursor:
  assumes "retrieveItemByPlaidItemId w plaidItemId = Some it"
    and "sync_responses w = map Page ps @ Failed # rest"
    and "\<forall>p \<in> set ps. has_more p"
  shows "map_option fst (fetchTransactionUpdates plaidItemId w) =
      Some (Inr \<lparr>u_added = concat (map added ps), u_modified = concat (map modified ps),
                 u_removed = concat (map removed ps), u_cursor = transactions_cursor it,
                 u_accessToken = plaid_access_token it\<rparr>)
    \<and> (\<exists>r w'. updateTransactions m plaidItemId w = Some (r, w') \<and>
          retrieveItemByPlaidItemId w' plaidItemId = Some it)"
proof -
  define u where "u = \<lparr>u_added = concat (map added ps), u_modified = concat (map modified ps),
                 u_removed = concat (map removed ps), u_cursor = transactions_cursor it,
                 u_accessToken = plaid_access_token it\<rparr>"
  have uc: "u_cursor u = transactions_cursor it" by (simp add: u_def)
  have f: "map_option fst (fetchTransactionUpdates plaidItemId w) = Some (Inr u)"
    unfolding u_def by (rule fetch_pages_then_failure [OF assms])
  then obtain w1 where fw: "fetchTransactionUpdates plaidItemId w = Some (Inr u, w1)"
    by (cases "fetchTransactionUpdates plaidItemId w") auto
  have same: "retrieveItemByPlaidItemId
      (updateItemTransactionsCursor plaidItemId (u_cursor u) w) plaidItemId = Some it"
    using assms(1) by (simp add: retrieve_after_set_cursor uc)
  from cycle_items [OF fw, of m] obtain res w'
    where up: "updateTransactions m plaidItemId w = Some (res, w')"
      and it: "case res of
         Inl th \<Rightarrow> items_table w' = items_table w
       | Inr n \<Rightarrow> items_table w' =
           items_table (updateItemTransactionsCursor plaidItemId (u_cursor u) w)"
    by blast
  have "retrieveItemByPlaidItemId w' plaidItemId = Some it"
  proof (cases res)
    case (Inl th)
    with it have "items_table w' = items_table w" by simp
    from retrieve_cong [OF this, of plaidItemId] assms(1) show ?thesis by simp
  next
    case (Inr n)
    with it have "items_table w' =
        items_table (updateItemTransactionsCursor plaidItemId (u_cursor u) w)" by simp
    from retrieve_cong [OF this, of plaidItemId] same show ?thesis by simp
  qed
  with up f show ?thesis unfolding u_def by blast
qed

theorem failed_page_keeps_cursor_witness:
  "map_option fst (fetchTransactionUpdates ''item-1'' failing_world) =
      Some (Inr \<lparr>u_added = [txnA, txnB], u_modified = [], u_removed = [],
                 u_cursor = Some ''c0'', u_accessToken = ''token-1''\<rparr>)
    \<and> (\<exists>r w'. updateTransactions DuplicateAware ''item-1'' failing_world = Some (r, w') \<and>
          retrieveItemByPlaidItemId w' ''item-1'' = Some item_c0)"
proof -
  have h1: "retrieveItemByPlaidItemId failing_world ''item-1'' = Some item_c0"
    by (simp add: retrieveItemByPlaidItemId_def failing_world_def world0_def item_c0_def
        item1_def)
  have h2: "sync_responses failing_world = map Page [page1] @ Failed # [Page page2]"
    by (simp add: failing_world_def world0_def)
  have h3: "\<forall>p \<in> set [page1]. has_more p"
    by (simp add: page1_def)
  from failed_page_keeps_cursor [OF h1 h2 h3, of DuplicateAware]
  show ?thesis
    by (simp add: page1_def item_c0_def item1_def)
qed

lemma cycle_returns:
  assumes fw: "fetchTransactionUpdates k w = Some (Inr u, w1)"
    and acc: "accounts_response w1 (u_accessToken u) = Some accounts"
    and up: "updateTransactions m k w = Some (Inr n, w')"
  shows "list_all (\<lambda>a. list_ex (\<lambda>r. a_plaid_account_id r = pa_account_id a)
                           (accounts_table w')) accounts \<and>
         first_rejection (createAccounts k accounts w1) (u_added u @ u_modified u) = None \<and>
         \<not> list_ex (delete_fails w) (u_removed u) \<and>
         \<not> list_ex (\<lambda>r. r_plaid_transaction_id r \<in> set (u_removed u)) (transactions_table w')"
proof -
  let ?w2 = "createAccounts k accounts w1"
  let ?batch = "u_added u @ u_modified u"
  let ?w3' = "console_log (ProcessedTransactions (map name ?batch)) (snd (reconcile m ?batch ?w2))"
  let ?w4 = "delete_all (u_removed u) ?w3'"
  note step = cycle_after_accounts [OF fw acc, of m]
  from step up obtain x where r: "fst (reconcile m ?batch ?w2) = Inr x"
    by (cases "fst (reconcile m ?batch ?w2)") (simp_all add: Let_def)
  from step up r have nf: "find (delete_fails w) (u_removed u) = None"
    by (cases "find (delete_fails w) (u_removed u)") (simp_all add: Let_def)
  from step up r nf have w': "w' = updateItemTransactionsCursor k (u_cursor u) ?w4"
    by (simp add: Let_def)
  have "untouched w1 w" using fetch_frame [OF fw] by simp
  then have d2: "delete_fails ?w2 = delete_fails w"
    by (simp add: untouched_def createAccounts_frame)
  have u3: "untouched ?w3' ?w2"
    using untouched_reconcile [of m ?batch ?w2] by (simp add: untouched_def console_log_def)
  then have d3: "delete_fails ?w3' = delete_fails w" using d2 by (simp add: untouched_def)
  have u4: "untouched ?w4 ?w2" by (rule untouched_trans [OF untouched_delete_all u3])
  have a': "accounts_table w' = accounts_table ?w2"
    using u4 unfolding w' by (simp add: untouched_def updateItemTransactionsCursor_def)
  have t': "transactions_table w' = transactions_table ?w4"
    unfolding w' by (simp add: updateItemTransactionsCursor_def)
  have 1: "list_all (\<lambda>a. list_ex (\<lambda>r. a_plaid_account_id r = pa_account_id a)
                           (accounts_table w')) accounts"
    unfolding a' list_all_iff list_ex_iff
    using createAccounts_known [of _ accounts k w1] by fastforce
  have 2: "first_rejection ?w2 ?batch = None"
    using r reconcile_throws [of m ?batch ?w2]
    by (cases "first_rejection ?w2 ?batch") simp_all
  have 3: "\<not> list_ex (delete_fails w) (u_removed u)"
    using nf by (simp add: find_None_list_ex)
  then have "\<not> list_ex (delete_fails ?w3') (u_removed u)" unfolding d3 .
  from delete_all_done [OF this] have 4:
    "\<not> list_ex (\<lambda>r. r_plaid_transaction_id r \<in> set (u_removed u)) (transactions_table w')"
    by (simp add: t')
  from 1 2 3 4 show ?thesis by blast
qed

lemma cycle_result_cases:
  assumes "updateTransactions m k w = Some (res, w')"
  shows "(\<exists>e. fetchTransactionUpdates k w = Some (Inl e, w') \<and> res = Inl (e, []))
       \<or> (\<exists>u. fetchTransactionUpdates k w = Some (Inr u, w') \<and> res = Inl (AccountsGetFailed, [])
              \<and> accounts_response w' (u_accessToken u) = None)
       \<or> (\<exists>u w1 accounts. fetchTransactionUpdates k w = Some (Inr u, w1) \<and>
              accounts_response w1 (u_accessToken u) = Some accounts)"
proof (cases "fetchTransactionUpdates k w")
  case None
  with assms show ?thesis by (simp add: updateTransactions_def)
next
  case (Some a)
  obtain r w1 where a: "a = (r, w1)" by (cases a)
  show ?thesis
  proof (cases r)
    case (Inl e)
    with Some a assms show ?thesis by (auto simp: updateTransactions_def)
  next
    case (Inr u)
    with Some a assms show ?thesis
      by (cases "accounts_response w1 (u_accessToken u)") (auto simp: updateTransactions_def)
  qed
qed

text \<open>
  C4, as the code has it, in two halves.

  Only if: a cycle that throws, at whatever step, leaves the table of items as it was.
  A cycle that returns has fetched and got the accounts; every account that the
  provider listed is in the table of accounts; no callback of the reconciliation
  rejected; no \<^verbatim>\<open>DELETE\<close> failed and no row with a removed identifier is left; and
  the items are those of before with the fetched cursor written.

  If: when the fetch and \<^verbatim>\<open>accountsGet\<close> return, no callback rejects and no
  \<^verbatim>\<open>DELETE\<close> fails, the cycle returns and the cursor is written. Nothing is asked
  of \<open>write_fails\<close>: a record write that the store rejects is caught inside the
  callback and does not withhold the cursor write.
\<close>

theorem cursor_written_last:
  "(updateTransactions m plaidItemId w = Some (res, w') \<longrightarrow>
      (case res of
         Inl th \<Rightarrow> items_table w' = items_table w
       | Inr n \<Rightarrow>
           (\<exists>u w1 accounts.
              fetchTransactionUpdates plaidItemId w = Some (Inr u, w1) \<and>
              accounts_response w1 (u_accessToken u) = Some accounts \<and>
              list_all (\<lambda>a. list_ex (\<lambda>r. a_plaid_account_id r = pa_account_id a)
                               (accounts_table w')) accounts \<and>
              first_rejection (createAccounts plaidItemId accounts w1)
                (u_added u @ u_modified u) = None \<and>
              \<not> list_ex (delete_fails w) (u_removed u) \<and>
              \<not> list_ex (\<lambda>r. r_plaid_transaction_id r \<in> set (u_removed u))
                    (transactions_table w') \<and>
              items_table w' =
                items_table (updateItemTransactionsCursor plaidItemId (u_cursor u) w))))
   \<and> (fetchTransactionUpdates plaidItemId w = Some (Inr u, w1) \<longrightarrow>
      accounts_response w1 (u_accessToken u) = Some accounts \<longrightarrow>
      first_rejection (createAccounts plaidItemId accounts w1) (u_added u @ u_modified u) = None \<longrightarrow>
      \<not> list_ex (delete_fails w) (u_removed u) \<longrightarrow>
      (\<exists>n w'. updateTransactions m plaidItemId w = Some (Inr n, w') \<and>
         items_table w' =
           items_table (updateItemTransactionsCursor plaidItemId (u_cursor u) w)))"
proof (intro conjI impI)
  assume up: "updateTransactions m plaidItemId w = Some (res, w')"
  from cycle_result_cases [OF up]
  show "case res of
         Inl th \<Rightarrow> items_table w' = items_table w
       | Inr n \<Rightarrow>
           (\<exists>u w1 accounts.
              fetchTransactionUpdates plaidItemId w = Some (Inr u, w1) \<and>
              accounts_response w1 (u_accessToken u) = Some accounts \<and>
              list_all (\<lambda>a. list_ex (\<lambda>r. a_plaid_account_id r = pa_account_id a)
                               (accounts_table w')) accounts \<and>
              first_rejection (createAccounts plaidItemId accounts w1)
                (u_added u @ u_modified u) = None \<and>
              \<not> list_ex (delete_fails w) (u_removed u) \<and>
              \<not> list_ex (\<lambda>r. r_plaid_transaction_id r \<in> set (u_removed u))
                    (transactions_table w') \<and>
              items_table w' =
                items_table (updateItemTransactionsCursor plaidItemId (u_cursor u) w))"
  proof (elim disjE exE conjE)
    fix e assume f: "fetchTransactionUpdates plaidItemId w = Some (Inl e, w')"
      and r: "res = Inl (e, [])"
    from fetch_frame [OF f] r show ?thesis by (simp add: untouched_def)
  next
    fix u assume f: "fetchTransactionUpdates plaidItemId w = Some (Inr u, w')"
      and r: "res = Inl (AccountsGetFailed, [])"
    from fetch_frame [OF f] r show ?thesis by (simp add: untouched_def)
  next
    fix u w1 accounts
    assume f: "fetchTransactionUpdates plaidItemId w = Some (Inr u, w1)"
      and a: "accounts_response w1 (u_accessToken u) = Some accounts"
    from cycle_items [OF f, of m] up
    have it: "case res of
       Inl th \<Rightarrow> items_table w' = items_table w
     | Inr n \<Rightarrow> items_table w' =
         items_table (updateItemTransactionsCursor plaidItemId (u_cursor u) w)"
      by auto
    show ?thesis
    proof (cases res)
      case (Inl th)
      with it show ?thesis by simp
    next
      case (Inr n)
      with up have up': "updateTransactions m plaidItemId w = Some (Inr n, w')" by simp
      from cycle_returns [OF f a up'] it Inr f a show ?thesis by auto
    qed
  qed
next
  assume f: "fetchTransactionUpdates plaidItemId w = Some (Inr u, w1)"
    and a: "accounts_response w1 (u_accessToken u) = Some accounts"
    and nr: "first_rejection (createAccounts plaidItemId accounts w1)
               (u_added u @ u_modified u) = None"
    and nd: "\<not> list_ex (delete_fails w) (u_removed u)"
  from nr have r: "fst (reconcile m (u_added u @ u_modified u)
      (createAccounts plaidItemId accounts w1)) = Inr ()"
    by (simp add: reconcile_throws)
  from nd have d: "find (delete_fails w) (u_removed u) = None"
    by (simp add: find_None_list_ex)
  from cycle_after_accounts [OF f a, of m] r d
  obtain n w'' where up: "updateTransactions m plaidItemId w = Some (Inr n, w'')"
    by (simp add: Let_def)
  from cycle_items [OF f, of m] up
  have "items_table w'' =
      items_table (updateItemTransactionsCursor plaidItemId (u_cursor u) w)"
    by auto
  with up show "\<exists>n w'. updateTransactions m plaidItemId w = Some (Inr n, w') \<and>
      items_table w' = items_table (updateItemTransactionsCursor plaidItemId (u_cursor u) w)"
    by blast
qed

theorem cursor_written_last_witness:
  "map_option (map transactions_cursor \<circ> items_table \<circ> snd)
     (updateTransactions DuplicateAware ''item-1'' rejecting_world) = Some [Some ''c2'']
   \<and> map_option fst (updateTransactions DuplicateAware ''item-1'' failing_delete_world)
     = Some (Inl (DeleteFailed ''old'', []))
   \<and> map_option (map transactions_cursor \<circ> items_table \<circ> snd)
     (updateTransactions DuplicateAware ''item-1'' failing_delete_world) = Some [None]"
proof -
  let ?f = "fetchTransactionUpdates ''item-1'' rejecting_world"
  let ?u = "\<lparr>u_added = [txnA, txnB, txnC], u_modified = [], u_removed = [],
             u_cursor = Some ''c2'', u_accessToken = ''token-1''\<rparr>"
  have "map_option fst ?f = Some (Inr ?u)"
    by (simp add: eval_defs example_defs)
  then obtain w1 where f: "?f = Some (Inr ?u, w1)"
    by (cases ?f) auto
  have "map_option (accounts_response \<circ> snd) ?f = Some (accounts_response rejecting_world)"
    by (simp add: eval_defs example_defs)
  with f have a: "accounts_response w1 (u_accessToken ?u) = Some [\<lparr>pa_account_id = ''acc-1''\<rparr>]"
    by (simp add: example_defs)
  have "map_option (accounts_table \<circ> snd) ?f = Some []"
    by (simp add: eval_defs example_defs)
  with f have "accounts_table w1 = []" by simp
  then have r: "first_rejection (createAccounts ''item-1'' [\<lparr>pa_account_id = ''acc-1''\<rparr>] w1)
      (u_added ?u @ u_modified ?u) = None"
    by (simp add: first_rejection_def retrieveAccountByPlaidAccountId_def example_defs)
  have d: "\<not> list_ex (delete_fails rejecting_world) (u_removed ?u)" by simp
  from cursor_written_last [of DuplicateAware "''item-1''" rejecting_world _ _ ?u w1
      "[\<lparr>pa_account_id = ''acc-1''\<rparr>]", THEN conjunct2, rule_format, OF f a r d]
  obtain n w' where "updateTransactions DuplicateAware ''item-1'' rejecting_world = Some (Inr n, w')"
    and "items_table w' =
      items_table (updateItemTransactionsCursor ''item-1'' (Some ''c2'') rejecting_world)"
    by auto
  then have 1: "map_option (map transactions_cursor \<circ> items_table \<circ> snd)
     (updateTransactions DuplicateAware ''item-1'' rejecting_world) = Some [Some ''c2'']"
    by (simp add: updateItemTransactionsCursor_def example_defs)
  let ?g = "updateTransactions DuplicateAware ''item-1'' failing_delete_world"
  have 2: "map_option fst ?g = Some (Inl (DeleteFailed ''old'', []))"
    by (simp add: eval_defs example_defs)
  then obtain w'' where g: "?g = Some (Inl (DeleteFailed ''old'', []), w'')"
    by (cases ?g) auto
  from cursor_written_last [of DuplicateAware "''item-1''" failing_delete_world
      "Inl (DeleteFailed ''old'', [])" w'', THEN conjunct1, rule_format, OF g]
  have "items_table w'' = items_table failing_delete_world" by simp
  with g have 3: "map_option (map transactions_cursor \<circ> items_table \<circ> snd) ?g = Some [None]"
    by (simp add: example_defs)
  from 1 2 3 show ?thesis by simp
qed

text \<open>
  C4 as stated fails: the store rejects the insert of record \<open>B\<close>; the callback
  catches and logs the error, the cycle returns its counts, the table holds \<open>A\<close> and
  \<open>C\<close> only, and the cursor is advanced to \<open>c2\<close> all the same.
\<close>

theorem rejected_write_counterexample:
  "map_option fst (updateTransactions DuplicateAware ''item-1'' rejecting_world)
     = Some (Inr \<lparr>addedCount = 3, modifiedCount = 0, removedCount = 0\<rparr>)
   \<and> map_option (map r_plaid_transaction_id \<circ> transactions_table \<circ> snd)
       (updateTransactions DuplicateAware ''item-1'' rejecting_world) = Some [''A'', ''C'']
   \<and> map_option (console \<circ> snd) (updateTransactions DuplicateAware ''item-1'' rejecting_world)
     = Some [RetrievedItem (Some item1), InsertedNew ''A'', ErrorProcessing ''B'', InsertedNew ''C'',
             ProcessedTransactions [''A'', ''B'', ''C'']]
   \<and> map_option (map transactions_cursor \<circ> items_table \<circ> snd)
       (updateTransactions DuplicateAware ''item-1'' rejecting_world) = Some [Some ''c2'']"
  by (simp add: eval_defs example_defs)

section \<open>The driver\<close>

lemma sync_items_stops:
  assumes "sync_items m pre w = Some (Inr (), w1)"
    and "updateTransactions m (plaid_item_id it)
           (console_log (SyncingItem (plaid_item_id it)) w1) = Some (Inl th, w2)"
  shows "sync_items m (pre @ it # post) w = Some (Inl th, w2)"
  using assms
proof (induction pre arbitrary: w)
  case Nil
  then show ?case by simp
next
  case (Cons a pre)
  then show ?case
    by (auto split: option.splits sum.splits prod.splits)
qed

text \<open>
  C5, as the code has it. The loop over the items runs inside the single \<^verbatim>\<open>try\<close> of
  the script: when the cycle of one item throws, the items before it have been
  synced, the loop is left with that error, the script logs it, and all that happens
  after that is the end of the callbacks that the throw left running. The items after
  the failing one play no part in the result: they are not attempted.
\<close>

theorem script_stops_at_first_failure:
  assumes "items_table w = pre @ it # post"
    and "sync_items m pre (console_log ScriptStarted w) = Some (Inr (), w1)"
    and "updateTransactions m (plaid_item_id it)
           (console_log (SyncingItem (plaid_item_id it)) w1) = Some (Inl (e, rs), w2)"
  shows "sync_items m (pre @ it # post) (console_log ScriptStarted w) = Some (Inl (e, rs), w2)
    \<and> sync_script m w = Some (run_pending rs (console_log ErrorDuringSync w2))"
proof -
  have "sync_items m (pre @ it # post) (console_log ScriptStarted w) = Some (Inl (e, rs), w2)"
    by (rule sync_items_stops [OF assms(2,3)])
  moreover have "retrieveItemById (console_log ScriptStarted w) = pre @ it # post"
    using assms(1) by (simp add: retrieveItemById_def console_log_def)
  ultimately show ?thesis
    by (simp add: sync_script_def Let_def)
qed

theorem script_stops_at_first_failure_witness:
  "sync_items DuplicateAware [item1, item2] (console_log ScriptStarted two_item_world)
     = sync_items DuplicateAware [item1] (console_log ScriptStarted two_item_world)
   \<and> map_option fst
       (sync_items DuplicateAware [item1, item2] (console_log ScriptStarted two_item_world))
     = Some (Inl (AccountsGetFailed, []))"
proof -
  let ?w = "console_log ScriptStarted two_item_world"
  let ?run = "updateTransactions DuplicateAware (plaid_item_id item1)
      (console_log (SyncingItem (plaid_item_id item1)) ?w)"
  have "map_option fst ?run = Some (Inl (AccountsGetFailed, []))"
    by (simp add: eval_defs example_defs)
  then obtain w2 where u: "?run = Some (Inl (AccountsGetFailed, []), w2)"
    by (cases ?run) auto
  have s0: "sync_items DuplicateAware [] ?w = Some (Inr (), ?w)" by simp
  have i: "items_table two_item_world = [] @ item1 # [item2]"
    by (simp add: two_item_world_def world0_def)
  from script_stops_at_first_failure [OF i s0 u]
  have a: "sync_items DuplicateAware [item1, item2] ?w = Some (Inl (AccountsGetFailed, []), w2)"
    by simp
  from u have b: "sync_items DuplicateAware [item1] ?w = Some (Inl (AccountsGetFailed, []), w2)"
    by simp
  from a b show ?thesis by simp
qed

text \<open>
  C5 as stated fails: of two items, the first one's page request fails (which the fetch
  absorbs) and its \<^verbatim>\<open>accountsGet\<close> throws. The script logs the error and ends: the
  console has no line for the second item, the provider got no request with its token
  and the response that was waiting for it is still there.
\<close>

theorem second_item_counterexample:
  "map_option console (sync_script DuplicateAware two_item_world)
     = Some [ScriptStarted, SyncingItem ''item-1'', RetrievedItem (Some item1), ErrorFetching,
             ErrorDuringSync]
   \<and> map_option (map access_token \<circ> sync_requests) (sync_script DuplicateAware two_item_world)
     = Some [''token-1'']
   \<and> map_option sync_responses (sync_script DuplicateAware two_item_world)
     = Some [Page page2]"
  by (simp add: eval_defs example_defs)

section \<open>Duplicate-aware reconciliation of one record\<close>










text \<open>A batch of one record is the callback run alone.\<close>

lemma batch_of_one:
  "settled (createOrUpdateTransactions [t] w) = snd (reconcile_transaction t w)"
  "settled (createOrUpdateTransactions_upsert [t] w) = snd (upsert_transaction t w)"
  by (auto simp: settled_def createOrUpdateTransactions_def
      createOrUpdateTransactions_upsert_def first_rejection_def started_callbacks_def
      List.map_filter_simps run_reconcile_def decide_def write_one_def upsert_one_def
      reconcile_transaction_def upsert_transaction_def console_log_def Let_def
      split: option.splits list.splits)

section \<open>A record without a known account\<close>

text \<open>
  C6 at a failing input: a batch of \<open>X\<close>, whose account the store does not know, and
  \<open>A\<close>, whose account it knows. The lookup stands before the \<^verbatim>\<open>try\<close>, so the
  callback of \<open>X\<close> rejects: both versions of \<open>createOrUpdateTransactions\<close> throw, on
  a world in which nothing has been written or logged yet, while the callback of \<open>A\<close>
  is still running. \<open>A\<close> is written when its turn comes, but the console never gets a
  line about \<open>X\<close>. In a cycle the throw ends \<open>updateTransactions\<close> before the deletion
  and the cursor write: the item's cursor is not advanced; and the script logs its one
  error line before \<open>A\<close> is inserted.
\<close>

theorem unresolved_account_rejects_batch:
  "createOrUpdateTransactions [txnX, txnA] known_account_world
     = (Inl (UnresolvedAccount ''acc-x'', [Reconciling [startedA]]), known_account_world)
   \<and> console (settled (createOrUpdateTransactions [txnX, txnA] known_account_world))
     = [InsertedNew ''A'']
   \<and> map r_plaid_transaction_id
       (transactions_table (settled (createOrUpdateTransactions [txnX, txnA] known_account_world)))
     = [''A'']
   \<and> createOrUpdateTransactions_upsert [txnX, txnA] known_account_world
     = (Inl (UnresolvedAccount ''acc-x'', [Upserting [startedA]]), known_account_world)
   \<and> console (settled (createOrUpdateTransactions_upsert [txnX, txnA] known_account_world))
     = [Upserted ''A'' ''A'']
   \<and> map_option fst (updateTransactions DuplicateAware ''item-1'' unresolved_world)
     = Some (Inl (UnresolvedAccount ''acc-x'', [Reconciling [startedA]]))
   \<and> map_option (items_table \<circ> snd) (updateTransactions DuplicateAware ''item-1'' unresolved_world)
     = Some [item1]
   \<and> map_option console (sync_script DuplicateAware unresolved_world)
     = Some [ScriptStarted, SyncingItem ''item-1'', RetrievedItem (Some item1), ErrorDuringSync,
             InsertedNew ''A'']"
  by (simp add: eval_defs example_defs)

section \<open>Replaying a batch in the upsert version\<close>

lemma written_row_shape:
  "written_row w s = Some v \<Longrightarrow>
     r_id (v i) = i \<and> r_plaid_transaction_id (v i) = transaction_id (st_transaction s)"
  by (auto simp: written_row_def new_row_def split: if_splits)

lemma written_row_cong:
  "write_fails w' = write_fails w \<Longrightarrow> written_row w' s = written_row w s"
  by (simp add: written_row_def)

lemma last_write_cong:
  "write_fails w' = write_fails w \<Longrightarrow> last_write w' ss k = last_write w ss k"
  by (induction ss) (simp_all add: written_row_cong [of w' w] split: option.split)

lemma upsert_one_write_fails: "write_fails (upsert_one s w) = write_fails w"
  using untouched_upsert_one [of s w] by (simp add: untouched_def)

lemma run_upsert_write_fails: "write_fails (run_upsert ss w) = write_fails w"
  using untouched_run_upsert [of ss w] by (simp add: untouched_def)

lemma last_write_step: "last_write (upsert_one s w) ss k = last_write w ss k"
  by (rule last_write_cong [OF upsert_one_write_fails])

lemma upsert_table:
  "transactions_table (upsert_one s w) =
     (case written_row w s of
        None \<Rightarrow> transactions_table w
      | Some v \<Rightarrow>
          if list_ex (\<lambda>r. r_plaid_transaction_id r = transaction_id (st_transaction s))
               (transactions_table w)
          then map (\<lambda>r. if r_plaid_transaction_id r = transaction_id (st_transaction s)
                        then v (r_id r) else r)
                 (transactions_table w)
          else transactions_table w @ [v (next_transaction_id w)])"
  by (auto simp: upsert_one_def written_row_def upsert_row_def insert_transaction_def
      console_log_def Let_def)

lemma upsert_cases [consumes 0, case_names skip update insert]:
  fixes w s
  defines "T \<equiv> transactions_table w" and "T' \<equiv> transactions_table (upsert_one s w)"
    and "k \<equiv> transaction_id (st_transaction s)"
  obtains "written_row w s = None" and "T' = T"
  | v where "written_row w s = Some v"
      and "k \<in> r_plaid_transaction_id ` set T"
      and "T' = map (\<lambda>r. if r_plaid_transaction_id r = k then v (r_id r) else r) T"
  | v where "written_row w s = Some v"
      and "k \<notin> r_plaid_transaction_id ` set T"
      and "T' = T @ [v (next_transaction_id w)]"
proof (cases "written_row w s")
  case None
  then show ?thesis using that(1) by (simp add: T_def T'_def upsert_table)
next
  case (Some v)
  show ?thesis
  proof (cases "k \<in> r_plaid_transaction_id ` set T")
    case True
    then have "list_ex (\<lambda>r. r_plaid_transaction_id r = k) (transactions_table w)"
      by (auto simp: list_ex_iff T_def)
    with Some True show ?thesis
      using that(2) [of v] by (simp add: T_def T'_def k_def upsert_table)
  next
    case False
    then have "\<not> list_ex (\<lambda>r. r_plaid_transaction_id r = k) (transactions_table w)"
      unfolding list_ex_iff T_def by force
    with Some False show ?thesis
      using that(3) [of v] by (simp add: T_def T'_def k_def upsert_table)
  qed
qed

lemma upsert_keys_grow:
  assumes "k \<in> r_plaid_transaction_id ` set (transactions_table w)"
  shows "k \<in> r_plaid_transaction_id ` set (transactions_table (upsert_one s w))"
proof (cases rule: upsert_cases [of w s])
  case skip
  with assms show ?thesis by simp
next
  case (update v)
  from assms obtain r where r: "r \<in> set (transactions_table w)" "r_plaid_transaction_id r = k"
    by auto
  let ?f = "\<lambda>r. if r_plaid_transaction_id r = transaction_id (st_transaction s)
                 then v (r_id r) else r"
  have "r_plaid_transaction_id (?f r) = k"
    using r(2) written_row_shape [OF update(1)] by simp
  moreover have "?f r \<in> set (transactions_table (upsert_one s w))"
    using r(1) unfolding update(3) by (simp del: image_iff)
  ultimately show ?thesis by (metis imageI)
next
  case (insert v)
  with assms show ?thesis by auto
qed

lemma upsert_key_present:
  assumes "written_row w s = Some v"
  shows "transaction_id (st_transaction s) \<in>
    r_plaid_transaction_id ` set (transactions_table (upsert_one s w))"
proof (cases rule: upsert_cases [of w s])
  case skip
  with assms show ?thesis by simp
next
  case (update v')
  from upsert_keys_grow [OF update(2)] show ?thesis .
next
  case (insert v')
  have "r_plaid_transaction_id (v' (next_transaction_id w)) = transaction_id (st_transaction s)"
    using written_row_shape [OF insert(1)] by simp
  then show ?thesis unfolding insert(3) by (metis image_eqI in_set_conv_decomp)
qed

lemma run_keys_grow:
  "k \<in> r_plaid_transaction_id ` set (transactions_table w) \<Longrightarrow>
   k \<in> r_plaid_transaction_id ` set (transactions_table (run_upsert ss w))"
proof (induction ss arbitrary: w)
  case Nil
  then show ?case by simp
next
  case (Cons s ss)
  from Cons.IH [OF upsert_keys_grow [OF Cons.prems, of s]]
  show ?case by simp
qed

lemma upsert_other_keys:
  assumes "transaction_id (st_transaction s) = k \<longrightarrow> written_row w s = None"
  shows "filter (\<lambda>r. r_plaid_transaction_id r = k) (transactions_table (upsert_one s w)) =
         filter (\<lambda>r. r_plaid_transaction_id r = k) (transactions_table w)"
proof (cases rule: upsert_cases [of w s])
  case skip
  then show ?thesis by simp
next
  case (update v)
  with assms have ne: "transaction_id (st_transaction s) \<noteq> k" by auto
  have "filter (\<lambda>r. r_plaid_transaction_id r = k)
          (map (\<lambda>r. if r_plaid_transaction_id r = transaction_id (st_transaction s)
                     then v (r_id r) else r) xs) =
        filter (\<lambda>r. r_plaid_transaction_id r = k) xs" for xs
    using ne written_row_shape [OF update(1)] by (induction xs) auto
  then show ?thesis unfolding update(3) .
next
  case (insert v)
  with assms have "transaction_id (st_transaction s) \<noteq> k" by auto
  then show ?thesis
    unfolding insert(3) using written_row_shape [OF insert(1)] by simp
qed

lemma run_other_keys:
  "last_write w ss k = None \<Longrightarrow>
   filter (\<lambda>r. r_plaid_transaction_id r = k) (transactions_table (run_upsert ss w)) =
   filter (\<lambda>r. r_plaid_transaction_id r = k) (transactions_table w)"
proof (induction ss arbitrary: w)
  case Nil
  show ?case by simp
next
  case (Cons s ss)
  from Cons.prems have lw: "last_write w ss k = None"
    and nk: "transaction_id (st_transaction s) = k \<longrightarrow> written_row w s = None"
    by (auto split: option.splits if_splits)
  have "last_write (upsert_one s w) ss k = None"
    using lw by (simp add: last_write_step)
  from Cons.IH [OF this] upsert_other_keys [OF nk]
  show ?case by simp
qed

lemma run_key_present:
  "last_write w ss k = Some v \<Longrightarrow>
   k \<in> r_plaid_transaction_id ` set (transactions_table (run_upsert ss w))"
proof (induction ss arbitrary: w v)
  case Nil
  then show ?case by simp
next
  case (Cons s ss)
  show ?case
  proof (cases "last_write w ss k")
    case (Some v')
    then have "last_write (upsert_one s w) ss k = Some v'"
      by (simp add: last_write_step)
    from Cons.IH [OF this] show ?thesis by simp
  next
    case None
    with Cons.prems have k: "transaction_id (st_transaction s) = k"
      and wr: "written_row w s = Some v"
      by (auto split: if_splits)
    from run_keys_grow [OF upsert_key_present [OF wr], of ss] k
    show ?thesis by simp
  qed
qed

lemma upsert_rows_of_key:
  assumes "written_row w s = Some v"
    and "r \<in> set (transactions_table (upsert_one s w))"
    and "r_plaid_transaction_id r = transaction_id (st_transaction s)"
  shows "v (r_id r) = r"
proof (cases rule: upsert_cases [of w s])
  case skip
  with assms(1) show ?thesis by simp
next
  case (update v')
  with assms(1) have v': "v' = v" by simp
  from assms(2) obtain r0 where r0: "r0 \<in> set (transactions_table w)"
    and r: "r = (if r_plaid_transaction_id r0 = transaction_id (st_transaction s)
                 then v (r_id r0) else r0)"
    unfolding update(3) v' by auto
  show ?thesis
  proof (cases "r_plaid_transaction_id r0 = transaction_id (st_transaction s)")
    case True
    with r written_row_shape [OF assms(1)] show ?thesis by simp
  next
    case False
    with r assms(3) show ?thesis by simp
  qed
next
  case (insert v')
  with assms(1) have v': "v' = v" by simp
  from assms(2) have "r = v (next_transaction_id w) \<or> r \<in> set (transactions_table w)"
    unfolding insert(3) v' by auto
  then show ?thesis
  proof
    assume "r = v (next_transaction_id w)"
    with written_row_shape [OF assms(1)] show ?thesis by simp
  next
    assume "r \<in> set (transactions_table w)"
    with assms(3) insert(2) show ?thesis by (metis imageI)
  qed
qed

lemma run_settled:
  "r \<in> set (transactions_table (run_upsert ss w)) \<Longrightarrow> settled_row w ss r = r"
proof (induction ss arbitrary: w)
  case Nil
  show ?case by (simp add: settled_row_def)
next
  case (Cons s ss)
  let ?w1 = "upsert_one s w"
  let ?k = "r_plaid_transaction_id r"
  from Cons.prems have r: "r \<in> set (transactions_table (run_upsert ss ?w1))"
    by simp
  from Cons.IH [OF r] have ih: "settled_row w ss r = r"
    by (simp add: settled_row_def last_write_step)
  show ?case
  proof (cases "last_write w ss ?k")
    case (Some v')
    with ih show ?thesis by (simp add: settled_row_def)
  next
    case None
    show ?thesis
    proof (cases "transaction_id (st_transaction s) = ?k \<and> written_row w s \<noteq> None")
      case False
      with None show ?thesis by (auto simp: settled_row_def)
    next
      case True
      then obtain v where k: "transaction_id (st_transaction s) = ?k"
        and wr: "written_row w s = Some v"
        by auto
      have "last_write ?w1 ss ?k = None"
        using None by (simp add: last_write_step)
      note same = run_other_keys [OF this]
      have "r \<in> set (filter (\<lambda>x. r_plaid_transaction_id x = ?k)
          (transactions_table (run_upsert ss ?w1)))"
        using r by simp
      then have "r \<in> set (filter (\<lambda>x. r_plaid_transaction_id x = ?k) (transactions_table ?w1))"
        unfolding same .
      then have "r \<in> set (transactions_table ?w1)" by simp
      from upsert_rows_of_key [OF wr this] k have "v (r_id r) = r" by simp
      with None k wr show ?thesis by (simp add: settled_row_def)
    qed
  qed
qed

lemma run_only_updates:
  "(\<And>k v. last_write w ss k = Some v \<Longrightarrow>
      k \<in> r_plaid_transaction_id ` set (transactions_table w)) \<Longrightarrow>
   transactions_table (run_upsert ss w) = map (settled_row w ss) (transactions_table w)"
proof (induction ss arbitrary: w)
  case Nil
  show ?case by (simp add: settled_row_def)
next
  case (Cons s ss)
  let ?w1 = "upsert_one s w"
  let ?T = "transactions_table w"
  have pres: "k \<in> r_plaid_transaction_id ` set (transactions_table ?w1)"
    if "last_write ?w1 ss k = Some v" for k v
  proof -
    from that have "last_write w ss k = Some v" by (simp add: last_write_step)
    then have "last_write w (s # ss) k = Some v" by simp
    from upsert_keys_grow [OF Cons.prems [OF this]] show ?thesis .
  qed
  have ih: "transactions_table (run_upsert ss ?w1) =
      map (settled_row w ss) (transactions_table ?w1)"
    using Cons.IH [of ?w1, OF pres]
    by (simp add: settled_row_def last_write_step cong: map_cong)
  have "map (settled_row w ss) (transactions_table ?w1) = map (settled_row w (s # ss)) ?T"
  proof (cases rule: upsert_cases [of w s])
    case skip
    have "settled_row w ss r = settled_row w (s # ss) r" for r
      using skip(1) by (simp add: settled_row_def split: option.split)
    with skip(2) show ?thesis by simp
  next
    case (update v)
    let ?f = "\<lambda>r. if r_plaid_transaction_id r = transaction_id (st_transaction s)
                   then v (r_id r) else r"
    have "settled_row w ss (?f r) = settled_row w (s # ss) r" for r
      using update(1) written_row_shape [OF update(1)]
      by (simp add: settled_row_def split: option.split)
    then show ?thesis unfolding update(3) by (simp add: comp_def)
  next
    case (insert v)
    have "last_write w (s # ss) (transaction_id (st_transaction s)) \<noteq> None"
      using insert(1) by (simp split: option.split)
    with Cons.prems insert(2) show ?thesis by blast
  qed
  with ih show ?case by simp
qed

lemma run_upsert_twice:
  "transactions_table (run_upsert ss (run_upsert ss w)) = transactions_table (run_upsert ss w)"
proof -
  let ?w1 = "run_upsert ss w"
  have cong: "last_write ?w1 ss k = last_write w ss k" for k
    by (rule last_write_cong [OF run_upsert_write_fails])
  have "transactions_table (run_upsert ss ?w1) = map (settled_row ?w1 ss) (transactions_table ?w1)"
  proof (rule run_only_updates)
    fix k v assume "last_write ?w1 ss k = Some v"
    then have "last_write w ss k = Some v" by (simp add: cong)
    then show "k \<in> r_plaid_transaction_id ` set (transactions_table ?w1)"
      by (rule run_key_present)
  qed
  also have "\<dots> = map (settled_row w ss) (transactions_table ?w1)"
    by (simp add: settled_row_def cong)
  also have "\<dots> = transactions_table ?w1"
    by (rule map_idI) (rule run_settled)
  finally show ?thesis .
qed

lemma settled_upsert:
  "settled (createOrUpdateTransactions_upsert ts w) = run_upsert (started_callbacks w ts) w"
  by (simp add: settled_def createOrUpdateTransactions_upsert_def split: option.split)

lemma started_callbacks_cong:
  "accounts_table w' = accounts_table w \<Longrightarrow> started_callbacks w' ts = started_callbacks w ts"
  by (simp add: started_callbacks_def retrieveAccountByPlaidAccountId_def
      cong: option.case_cong)

text \<open>
  C7. In the upsert version, applying a batch to the world that a first application
  of the same batch has left, each time with every callback run to its end, gives the
  same table of transactions: no row more, no field changed.
\<close>

theorem upsert_replay_is_idempotent:
  "transactions_table
     (settled (createOrUpdateTransactions_upsert ts
        (settled (createOrUpdateTransactions_upsert ts w)))) =
   transactions_table (settled (createOrUpdateTransactions_upsert ts w))"
proof -
  let ?ss = "started_callbacks w ts"
  have "accounts_table (run_upsert ?ss w) = accounts_table w"
    using untouched_run_upsert [of ?ss w] by (simp add: untouched_def)
  then have "started_callbacks (run_upsert ?ss w) ts = ?ss"
    by (rule started_callbacks_cong)
  then show ?thesis
    by (simp add: settled_upsert run_upsert_twice)
qed

theorem upsert_replay_is_idempotent_witness:
  "transactions_table
     (settled (createOrUpdateTransactions_upsert [txnA, txnX, txnA\<lparr>amount := 11\<rparr>, txnB]
        (settled (createOrUpdateTransactions_upsert [txnA, txnX, txnA\<lparr>amount := 11\<rparr>, txnB]
           posted_world)))) =
   [stored_row 1 ''Q'' 10 False, stored_row 2 ''A'' 11 False,
    (stored_row 3 ''B'' 20 False)\<lparr>r_date := ''2024-01-06''\<rparr>]"
proof -
  have once: "transactions_table
      (settled (createOrUpdateTransactions_upsert [txnA, txnX, txnA\<lparr>amount := 11\<rparr>, txnB]
         posted_world)) =
    [stored_row 1 ''Q'' 10 False, stored_row 2 ''A'' 11 False,
     (stored_row 3 ''B'' 20 False)\<lparr>r_date := ''2024-01-06''\<rparr>]"
    by (simp add: settled_def createOrUpdateTransactions_upsert_def first_rejection_def
        started_callbacks_def upsert_one_def upsert_row_def
        retrieveAccountByPlaidAccountId_def insert_transaction_def new_row_def console_log_def
        Let_def posted_world_def known_account_world_def world0_def account1_def
        stored_row_def txnA_def txnB_def txnX_def txn_def)
  show ?thesis
    unfolding upsert_replay_is_idempotent by (rule once)
qed

end
